theory Spec2Isabelle
  imports Main "HOL-Library.Sublist" "HOL-Library.Code_Target_Nat"
begin

section \<open>Strings, exceptions and the platform\<close>

text \<open>
  A Python \<open>str\<close> is a sequence of Unicode code points; \<open>len\<close> and slicing count
  code points. It is modelled as a list of natural numbers. \<open>cps\<close> turns an ASCII
  literal into its code points.
\<close>

type_synonym pystr = "nat list"

definition cps :: "string \<Rightarrow> pystr" where
  "cps s = map of_char s"

text \<open>
  The exception classes the handlers of \<open>main.py\<close> tell apart. Every constructor
  stands for a subclass of \<open>Exception\<close>: \<open>RequestException\<close> for
  \<open>requests.RequestException\<close> and its subclasses (connection errors, timeouts,
  \<open>HTTPError\<close>), \<open>OtherException\<close> for everything no handler names.
\<close>

datatype exn = RequestException | ValueError | IndexError | OverflowError | OtherException

text \<open>
  Lowercasing, word characters, white space, decimal digits and caseless comparison
  are fixed by the language for ASCII and read from the Unicode character database
  for every other code point. The database is not part of the repository, so its
  part beyond ASCII is a parameter: the record \<open>platform\<close>. The field
  \<open>uni_upper\<close> says which code points are uppercase letters (\<open>str.isupper\<close> on the
  character). The last field says
  whether the C library's \<open>strftime\<close> pads \<open>%Y\<close> with zeros to four digits
  (glibc does not, so CPython up to 3.12 on Linux prints the year 999 as \<open>999\<close>).
\<close>

record platform =
  uni_lower :: "pystr \<Rightarrow> pystr"
  uni_alnum :: "nat \<Rightarrow> bool"
  uni_space :: "nat \<Rightarrow> bool"
  uni_decimal :: "nat \<Rightarrow> nat option"
  uni_caseless :: "nat \<Rightarrow> nat \<Rightarrow> bool"
  uni_upper :: "nat \<Rightarrow> bool"
  pads_year :: bool

definition is_ascii :: "pystr \<Rightarrow> bool" where
  "is_ascii s = list_all (\<lambda>c. c < 128) s"

definition ascii_lower :: "nat \<Rightarrow> nat" where
  "ascii_lower c = (if 65 \<le> c \<and> c \<le> 90 then c + 32 else c)"

text \<open>\<open>str.lower()\<close>.\<close>

definition str_lower :: "platform \<Rightarrow> pystr \<Rightarrow> pystr" where
  "str_lower p s = (if is_ascii s then map ascii_lower s else uni_lower p s)"

text \<open>The class \<open>\w\<close> of a \<open>str\<close> pattern: alphanumeric or the underscore.\<close>

definition is_word :: "platform \<Rightarrow> nat \<Rightarrow> bool" where
  "is_word p c =
     (if c < 128
      then (48 \<le> c \<and> c \<le> 57) \<or> (65 \<le> c \<and> c \<le> 90) \<or> (97 \<le> c \<and> c \<le> 122) \<or> c = 95
      else uni_alnum p c)"

text \<open>\<open>str.isspace\<close> on one character, which is also the class \<open>\s\<close>.\<close>

definition is_space :: "platform \<Rightarrow> nat \<Rightarrow> bool" where
  "is_space p c =
     (if c < 128 then (9 \<le> c \<and> c \<le> 13) \<or> (28 \<le> c \<and> c \<le> 32) else uni_space p c)"

text \<open>The class \<open>\d\<close>, with the value \<open>int\<close> gives the digit.\<close>

definition decimal :: "platform \<Rightarrow> nat \<Rightarrow> nat option" where
  "decimal p c =
     (if c < 128 then (if 48 \<le> c \<and> c \<le> 57 then Some (c - 48) else None)
      else uni_decimal p c)"

text \<open>
  A literal \<open>a\<close> of a pattern compiled with \<open>re.IGNORECASE\<close> against the character
  \<open>x\<close> of the text. The compiler keeps a literal that has no case (an ASCII digit or
  punctuation mark, say) as an exact literal.
\<close>

definition ascii_letter :: "nat \<Rightarrow> bool" where
  "ascii_letter c = ((65 \<le> c \<and> c \<le> 90) \<or> (97 \<le> c \<and> c \<le> 122))"

definition literal_ignorecase :: "platform \<Rightarrow> nat \<Rightarrow> nat \<Rightarrow> bool" where
  "literal_ignorecase p a x =
     (if a < 128 \<and> \<not> ascii_letter a then x = a
      else if a < 128 \<and> x < 128 then ascii_lower a = ascii_lower x
      else uni_caseless p a x)"

text \<open>
  A platform that knows ASCII only (no other code point is a letter, a digit or white
  space), with the year printed as glibc prints it. On ASCII strings every platform
  agrees with it, whatever its tables say.
\<close>

definition ascii_platform :: platform where
  "ascii_platform =
     \<lparr>uni_lower = (\<lambda>s. map ascii_lower s), uni_alnum = (\<lambda>c. False),
      uni_space = (\<lambda>c. False), uni_decimal = (\<lambda>c. None),
      uni_caseless = (\<lambda>a x. a = x), uni_upper = (\<lambda>c. False), pads_year = False\<rparr>"

text \<open>An uppercase letter: \<open>A\<close> to \<open>Z\<close>, or an uppercase letter of the tables.\<close>

definition is_upper :: "platform \<Rightarrow> nat \<Rightarrow> bool" where
  "is_upper p c = (if c < 128 then 65 \<le> c \<and> c \<le> 90 else uni_upper p c)"

text \<open>
  A platform that knows, beyond ASCII, the one code point U+03D2 (978, the Greek
  upsilon with hook symbol) as Unicode has it: an uppercase letter, alphanumeric,
  with no lowercase form and no case variant.
\<close>

definition upsilon_platform :: platform where
  "upsilon_platform =
     \<lparr>uni_lower = (\<lambda>s. map ascii_lower s), uni_alnum = (\<lambda>c. c = 978),
      uni_space = (\<lambda>c. False), uni_decimal = (\<lambda>c. None),
      uni_caseless = (\<lambda>a x. a = x), uni_upper = (\<lambda>c. c = 978), pads_year = False\<rparr>"

section \<open>Keyword patterns: \<open>re.compile\<close> and \<open>Pattern.search\<close>\<close>

text \<open>
  \<open>re.compile(rf'\b{re.escape(keyword)}\b', re.IGNORECASE)\<close>: \<open>re.escape\<close> puts a
  backslash before each special character, so the parser reads every character of the
  keyword as a literal; the compiled pattern is a word boundary, the keyword's
  characters as caseless literals, and a word boundary.
\<close>

datatype re_node = AT_BOUNDARY | LITERAL nat

definition compile_keyword :: "pystr \<Rightarrow> re_node list" where
  "compile_keyword keyword = AT_BOUNDARY # map LITERAL keyword @ [AT_BOUNDARY]"

text \<open>
  The matcher's position in the text is the character before it (none at the start)
  and the characters from it on. \<open>\b\<close> holds where exactly one of the two
  neighbours is a word character; outside the text counts as not a word character.
\<close>

definition at_boundary :: "platform \<Rightarrow> nat option \<Rightarrow> pystr \<Rightarrow> bool" where
  "at_boundary p prev rest =
     ((case prev of None \<Rightarrow> False | Some c \<Rightarrow> is_word p c)
      \<noteq> (case rest of [] \<Rightarrow> False | c # cs \<Rightarrow> is_word p c))"

fun sre_match :: "platform \<Rightarrow> re_node list \<Rightarrow> nat option \<Rightarrow> pystr \<Rightarrow> bool" where
  "sre_match p [] prev rest = True"
| "sre_match p (AT_BOUNDARY # ns) prev rest =
     (at_boundary p prev rest \<and> sre_match p ns prev rest)"
| "sre_match p (LITERAL a # ns) prev rest =
     (case rest of
        [] \<Rightarrow> False
      | x # xs \<Rightarrow> literal_ignorecase p a x \<and> sre_match p ns (Some x) xs)"

text \<open>\<open>Pattern.search\<close> tries every start position, from the left, the end included.\<close>

fun sre_search :: "platform \<Rightarrow> re_node list \<Rightarrow> nat option \<Rightarrow> pystr \<Rightarrow> bool" where
  "sre_search p ns prev [] = sre_match p ns prev []"
| "sre_search p ns prev (x # xs) =
     (sre_match p ns prev (x # xs) \<or> sre_search p ns (Some x) xs)"

definition pattern_search :: "platform \<Rightarrow> re_node list \<Rightarrow> pystr \<Rightarrow> bool" where
  "pattern_search p pat text = sre_search p pat None text"

text \<open>
  The specification's words, for comparison with the matcher: \<open>w\<close> occurs in \<open>t\<close> as a
  case-insensitive whole word when \<open>t\<close> splits into a part before, a part that equals
  \<open>w\<close> character by character up to case, and a part after, with a word boundary on
  each side of the middle part.
\<close>

definition word_edge :: "platform \<Rightarrow> pystr \<Rightarrow> pystr \<Rightarrow> bool" where
  "word_edge p before after =
     ((before \<noteq> [] \<and> is_word p (last before)) \<noteq> (after \<noteq> [] \<and> is_word p (hd after)))"

definition occurs_as_whole_word :: "platform \<Rightarrow> pystr \<Rightarrow> pystr \<Rightarrow> bool" where
  "occurs_as_whole_word p w t =
     (\<exists>pre mid post. t = pre @ mid @ post \<and> list_all2 (literal_ignorecase p) w mid
        \<and> word_edge p pre (mid @ post) \<and> word_edge p (pre @ mid) post)"

section \<open>The scraper object\<close>

text \<open>
  The fields of \<open>HabrScraper\<close> the methods read (\<open>keywords_lc\<close> is \<open>self.keywords\<close>,
  the lowercased list). The session only carries constant
  request headers.
\<close>

record scraper =
  keywords_lc :: "pystr list"
  max_retries :: int
  keyword_patterns :: "re_node list list"

text \<open>\<open>HabrScraper.__init__\<close>.\<close>

definition scraper_init :: "platform \<Rightarrow> pystr list \<Rightarrow> int \<Rightarrow> scraper" where
  "scraper_init p kws n =
     \<lparr>keywords_lc = map (str_lower p) kws, max_retries = n,
      keyword_patterns = map compile_keyword (map (str_lower p) kws)\<rparr>"

text \<open>
  \<open>HabrScraper._find_keywords_with_regex\<close>: the loop over
  \<open>enumerate(self.keyword_patterns)\<close>. \<open>self.keywords[i]\<close> raises \<open>IndexError\<close> out of
  range. The unused \<open>text_lower\<close> is left out.
\<close>

fun find_keywords_loop ::
  "platform \<Rightarrow> pystr list \<Rightarrow> pystr \<Rightarrow> nat \<Rightarrow> re_node list list \<Rightarrow> pystr list \<Rightarrow> exn + pystr list" where
  "find_keywords_loop p kws text i [] found_keywords = Inr found_keywords"
| "find_keywords_loop p kws text i (pat # pats) found_keywords =
     (if pattern_search p pat text then
        (if i < length kws
         then find_keywords_loop p kws text (Suc i) pats (found_keywords @ [kws ! i])
         else Inl IndexError)
      else find_keywords_loop p kws text (Suc i) pats found_keywords)"

definition find_keywords_with_regex :: "platform \<Rightarrow> scraper \<Rightarrow> pystr \<Rightarrow> exn + pystr list" where
  "find_keywords_with_regex p sc text =
     find_keywords_loop p (keywords_lc sc) text 0 (keyword_patterns sc) []"

section \<open>The fetcher: \<open>HabrScraper._get_page_with_retry\<close>\<close>

text \<open>What \<open>session.get\<close> hands back: the fields of the response the method reads.\<close>

record response =
  status_code :: nat
  content_type :: "pystr option"
  resp_text :: pystr

text \<open>\<open>Response.raise_for_status\<close>: an \<open>HTTPError\<close> for a 4xx or 5xx status.\<close>

definition raise_for_status :: "response \<Rightarrow> exn + unit" where
  "raise_for_status r =
     (if 400 \<le> status_code r \<and> status_code r < 600 then Inl RequestException else Inr ())"

text \<open>
  The body of the \<open>try\<close> block (lines 80 to 89) for one attempt, given the outcome of
  \<open>session.get\<close>: either the call raised, or it returned a response. The content-type
  test only logs a warning, so it does not appear in the result.
\<close>

definition try_get :: "exn + response \<Rightarrow> exn + pystr" where
  "try_get got =
     (case got of
        Inl e \<Rightarrow> Inl e
      | Inr r \<Rightarrow> (case raise_for_status r of Inl e \<Rightarrow> Inl e | Inr _ \<Rightarrow> Inr (resp_text r)))"

text \<open>
  The loop \<open>for attempt in range(self.max_retries)\<close>, with \<open>maxr\<close> for
  \<open>self.max_retries\<close>. The network is a function from
  the number of the attempt to the outcome of its \<open>session.get\<close>. The effect of
  \<open>time.sleep\<close> is recorded as the list of the durations slept, in order. The result is
  \<open>Inr (Some body)\<close> for a returned string, \<open>Inr None\<close> when the loop ends without a
  \<open>return\<close> (Python's \<open>None\<close>), and \<open>Inl e\<close> when an exception leaves the method:
  one that \<open>session.get\<close> raised and that is no \<open>RequestException\<close>, or the
  \<open>OverflowError\<close> of \<open>time.sleep\<close>, which is raised inside the \<open>except\<close> clause.
\<close>

text \<open>
  \<open>time.sleep(secs)\<close> for an \<open>int\<close>: CPython converts the duration to nanoseconds in
  a signed 64-bit integer and raises \<open>OverflowError\<close> when it does not fit, that is
  above 9223372036 seconds. Of the durations \<open>2 ** attempt\<close> the largest that fits is
  \<open>2 ** 33\<close>. Below the bound the call is taken to sleep: the operating system
  refuses only a deadline beyond the range of its clock, which \<open>2 ** 33\<close> seconds reach
  on a machine that has been running for twenty years.
\<close>

definition time_sleep :: "nat \<Rightarrow> exn + unit" where
  "time_sleep secs = (if 9223372036 < secs then Inl OverflowError else Inr ())"

function get_page_loop ::
  "int \<Rightarrow> (nat \<Rightarrow> exn + response) \<Rightarrow> nat \<Rightarrow> nat list \<Rightarrow> (exn + pystr option) \<times> nat list" where
  "get_page_loop maxr net attempt slept =
     (if int attempt < maxr then
        (case try_get (net attempt) of
           Inr body \<Rightarrow> (Inr (Some body), slept)
         | Inl e \<Rightarrow>
             if e = RequestException then
               (if int attempt < maxr - 1
                then
                  (case time_sleep (2 ^ attempt) of
                     Inl e' \<Rightarrow> (Inl e', slept)
                   | Inr u \<Rightarrow> get_page_loop maxr net (Suc attempt) (slept @ [2 ^ attempt]))
                else (Inr (Some []), slept))
             else (Inl e, slept))
      else (Inr None, slept))"
  by pat_completeness auto
termination
  by (relation "measure (\<lambda>(m, net, a, s). nat (m - int a))") auto

definition get_page_with_retry ::
  "scraper \<Rightarrow> (nat \<Rightarrow> exn + response) \<Rightarrow> (exn + pystr option) \<times> nat list" where
  "get_page_with_retry sc net = get_page_loop (max_retries sc) net 0 []"





section \<open>Dates: \<open>datetime.strptime\<close>, \<open>strftime\<close> and \<open>HabrScraper._parse_date\<close>\<close>

record datetime =
  dt_year :: nat
  dt_month :: nat
  dt_day :: nat
  dt_hour :: nat
  dt_minute :: nat
  dt_second :: nat
  dt_microsecond :: nat

text \<open>
  \<open>strptime\<close> turns the format into a regular expression (\<open>_strptime.TimeRE\<close>): a
  directive becomes a named group, a run of white space becomes \<open>\s+\<close>, every other
  character a literal; the expression is compiled with \<open>IGNORECASE\<close>. Each
  alternative of a group is a fixed sequence of one-character classes: a literal, an
  ASCII range, or \<open>\d\<close>.
\<close>

datatype cclass = Chr nat | Rng nat nat | Dgt

definition cclass_match :: "platform \<Rightarrow> cclass \<Rightarrow> nat \<Rightarrow> bool" where
  "cclass_match p cc c =
     (case cc of
        Chr a \<Rightarrow> literal_ignorecase p a c
      | Rng lo hi \<Rightarrow> lo \<le> c \<and> c \<le> hi
      | Dgt \<Rightarrow> decimal p c \<noteq> None)"

text \<open>
  The groups of the directives, alternatives in the order of the expression:
  \<open>Y\<close> is \<open>\d\<^bold>\d\<^bold>\d\<^bold>\d\<close>, \<open>m\<close> is \<open>1[0-2]|0[1-9]|[1-9]\<close>,
  \<open>d\<close> is \<open>3[0-1]|[1-2]\d|0[1-9]|[1-9]| [1-9]\<close>, \<open>H\<close> is \<open>2[0-3]|[0-1]\d|\d\<close>,
  \<open>M\<close> is \<open>[0-5]\d|\d\<close>, \<open>S\<close> is \<open>6[0-1]|[0-5]\d|\d\<close> and \<open>f\<close> is
  \<open>[0-9]{1,6}\<close> (greedy: the longest run first).
\<close>

definition group_regex :: "nat \<Rightarrow> cclass list list option" where
  "group_regex d =
     (if d = 89 then Some [[Dgt, Dgt, Dgt, Dgt]]
      else if d = 109 then Some [[Chr 49, Rng 48 50], [Chr 48, Rng 49 57], [Rng 49 57]]
      else if d = 100 then
        Some [[Chr 51, Rng 48 49], [Rng 49 50, Dgt], [Chr 48, Rng 49 57], [Rng 49 57],
              [Chr 32, Rng 49 57]]
      else if d = 72 then Some [[Chr 50, Rng 48 51], [Rng 48 49, Dgt], [Dgt]]
      else if d = 77 then Some [[Rng 48 53, Dgt], [Dgt]]
      else if d = 83 then Some [[Chr 54, Rng 48 49], [Rng 48 53, Dgt], [Dgt]]
      else if d = 102 then Some (map (\<lambda>k. replicate k (Rng 48 57)) [6, 5, 4, 3, 2, 1])
      else None)"

datatype item = Group nat "cclass list list" | Literal nat | Whitespace

text \<open>
  \<open>TimeRE.pattern\<close>, on the directives above; \<open>None\<close> for a directive outside them or
  a stray \<open>%\<close>, where \<open>strptime\<close> raises \<open>ValueError\<close>.
\<close>

function pattern :: "platform \<Rightarrow> pystr \<Rightarrow> item list option" where
  "pattern p [] = Some []"
| "pattern p (c # cs) =
     (if c = 37 then
        (case cs of
           [] \<Rightarrow> None
         | d # ds \<Rightarrow>
             (case group_regex d of
                None \<Rightarrow> None
              | Some alts \<Rightarrow> map_option (\<lambda>its. Group d alts # its) (pattern p ds)))
      else if is_space p c then
        map_option (\<lambda>its. Whitespace # its) (pattern p (dropWhile (is_space p) cs))
      else map_option (\<lambda>its. Literal c # its) (pattern p cs))"
  by pat_completeness auto
termination
  by (relation "measure (\<lambda>(p, s). length s)")
     (auto simp: less_Suc_eq_le length_dropWhile_le)

fun match_seq :: "platform \<Rightarrow> cclass list \<Rightarrow> pystr \<Rightarrow> (pystr \<times> pystr) option" where
  "match_seq p [] s = Some ([], s)"
| "match_seq p (cc # ccs) [] = None"
| "match_seq p (cc # ccs) (c # cs) =
     (if cclass_match p cc c
      then (case match_seq p ccs cs of None \<Rightarrow> None | Some (m, r) \<Rightarrow> Some (c # m, r))
      else None)"

text \<open>
  The ways one item can match at the front of \<open>s\<close>, in the order a backtracking
  matcher tries them: what the group captured (if the item is a group) and the rest of
  the string. \<open>\s+\<close> is greedy.
\<close>

definition item_alts :: "platform \<Rightarrow> item \<Rightarrow> pystr \<Rightarrow> ((nat \<times> pystr) list \<times> pystr) list" where
  "item_alts p it s =
     (case it of
        Group g alts \<Rightarrow>
          List.map_filter (\<lambda>alt. map_option (\<lambda>(m, r). ([(g, m)], r)) (match_seq p alt s)) alts
      | Literal a \<Rightarrow>
          (case s of [] \<Rightarrow> [] | x # xs \<Rightarrow> if literal_ignorecase p a x then [([], xs)] else [])
      | Whitespace \<Rightarrow>
          map (\<lambda>k. ([], drop k s)) (rev [1 ..< Suc (length (takeWhile (is_space p) s))]))"

text \<open>
  All the matches of the expression at the start of the string, the one
  \<open>Pattern.match\<close> returns first.
\<close>

fun regex_match :: "platform \<Rightarrow> item list \<Rightarrow> pystr \<Rightarrow> ((nat \<times> pystr) list \<times> pystr) list" where
  "regex_match p [] s = [([], s)]"
| "regex_match p (it # its) s =
     concat (map (\<lambda>(caps, r). map (\<lambda>(caps', r'). (caps @ caps', r')) (regex_match p its r))
                 (item_alts p it s))"

text \<open>\<open>str.strip()\<close>, and \<open>int\<close> on a string of decimal digits with white space around.\<close>

definition strip :: "platform \<Rightarrow> pystr \<Rightarrow> pystr" where
  "strip p s = rev (dropWhile (is_space p) (rev (dropWhile (is_space p) s)))"

definition py_int :: "platform \<Rightarrow> pystr \<Rightarrow> nat option" where
  "py_int p s =
     (case those (map (decimal p) (strip p s)) of
        None \<Rightarrow> None
      | Some ds \<Rightarrow> if ds = [] then None else Some (foldl (\<lambda>a d. 10 * a + d) 0 ds))"

definition group_int :: "platform \<Rightarrow> (nat \<times> pystr) list \<Rightarrow> nat \<Rightarrow> nat \<Rightarrow> nat option" where
  "group_int p caps g dflt =
     (case map_of caps g of None \<Rightarrow> Some dflt | Some txt \<Rightarrow> py_int p txt)"

definition is_leap :: "nat \<Rightarrow> bool" where
  "is_leap y = (y mod 4 = 0 \<and> (y mod 100 \<noteq> 0 \<or> y mod 400 = 0))"

definition days_in_month :: "nat \<Rightarrow> nat \<Rightarrow> nat" where
  "days_in_month y m =
     (if m = 2 then (if is_leap y then 29 else 28)
      else if m = 4 \<or> m = 6 \<or> m = 9 \<or> m = 11 then 30 else 31)"

text \<open>
  \<open>datetime.strptime(data_string, format)\<close>. It raises \<open>ValueError\<close> when the
  expression does not match, when the match leaves data unconverted, and when the
  fields are no date or time (year 0, 30 February, second 60).
\<close>

definition make_datetime :: "nat \<Rightarrow> nat \<Rightarrow> nat \<Rightarrow> nat \<Rightarrow> nat \<Rightarrow> nat \<Rightarrow> nat \<Rightarrow> exn + datetime" where
  "make_datetime y m d H M S f =
     (if 1 \<le> y \<and> y \<le> 9999 \<and> 1 \<le> m \<and> m \<le> 12 \<and> 1 \<le> d \<and> d \<le> days_in_month y m
         \<and> H \<le> 23 \<and> M \<le> 59 \<and> S \<le> 59 \<and> f \<le> 999999
      then Inr \<lparr>dt_year = y, dt_month = m, dt_day = d, dt_hour = H, dt_minute = M,
                dt_second = S, dt_microsecond = f\<rparr>
      else Inl ValueError)"

definition fraction_of :: "platform \<Rightarrow> (nat \<times> pystr) list \<Rightarrow> nat option" where
  "fraction_of p caps =
     (case map_of caps 102 of
        None \<Rightarrow> Some 0
      | Some txt \<Rightarrow> py_int p (txt @ replicate (6 - length txt) 48))"

definition datetime_of_groups :: "platform \<Rightarrow> (nat \<times> pystr) list \<Rightarrow> exn + datetime" where
  "datetime_of_groups p caps =
     (case group_int p caps 89 1900 of None \<Rightarrow> Inl ValueError | Some y \<Rightarrow>
      (case group_int p caps 109 1 of None \<Rightarrow> Inl ValueError | Some m \<Rightarrow>
      (case group_int p caps 100 1 of None \<Rightarrow> Inl ValueError | Some d \<Rightarrow>
      (case group_int p caps 72 0 of None \<Rightarrow> Inl ValueError | Some H \<Rightarrow>
      (case group_int p caps 77 0 of None \<Rightarrow> Inl ValueError | Some M \<Rightarrow>
      (case group_int p caps 83 0 of None \<Rightarrow> Inl ValueError | Some S \<Rightarrow>
      (case fraction_of p caps of None \<Rightarrow> Inl ValueError | Some f \<Rightarrow>
         make_datetime y m d H M S f)))))))"

definition strptime :: "platform \<Rightarrow> pystr \<Rightarrow> pystr \<Rightarrow> exn + datetime" where
  "strptime p data_string format =
     (case pattern p format of
        None \<Rightarrow> Inl ValueError
      | Some its \<Rightarrow>
          (case regex_match p its data_string of
             [] \<Rightarrow> Inl ValueError
           | (caps, rest) # others \<Rightarrow>
               if rest \<noteq> [] then Inl ValueError else datetime_of_groups p caps))"

text \<open>
  \<open>parsed_date.strftime('%Y-%m-%d')\<close>. Month and day are two digits; the year is four
  digits where the C library pads it and has no leading zeros where it does not. The
  year of a \<open>datetime\<close> is between 1 and 9999.
\<close>

definition digit_char :: "nat \<Rightarrow> nat" where
  "digit_char n = 48 + n mod 10"

definition pad2 :: "nat \<Rightarrow> pystr" where
  "pad2 n = [digit_char (n div 10), digit_char n]"

definition pad4 :: "nat \<Rightarrow> pystr" where
  "pad4 n = [digit_char (n div 1000), digit_char (n div 100), digit_char (n div 10), digit_char n]"

definition year_str :: "platform \<Rightarrow> nat \<Rightarrow> pystr" where
  "year_str p y =
     (if pads_year p \<or> y = 0 then pad4 y else dropWhile (\<lambda>c. c = 48) (pad4 y))"

definition strftime_ymd :: "platform \<Rightarrow> datetime \<Rightarrow> pystr" where
  "strftime_ymd p dt = year_str p (dt_year dt) @ [45] @ pad2 (dt_month dt) @ [45] @ pad2 (dt_day dt)"

text \<open>The list \<open>date_formats\<close> and the string \<open>"\<^verbatim>\<open>Data ne naidena\<close>"\<close> in Cyrillic.\<close>

definition date_formats :: "pystr list" where
  "date_formats =
     [cps ''%Y-%m-%dT%H:%M:%S.%fZ'', cps ''%Y-%m-%dT%H:%M:%SZ'', cps ''%Y-%m-%d %H:%M:%S'',
      cps ''%Y-%m-%d'']"

definition date_not_found :: pystr where
  "date_not_found =
     [1044, 1072, 1090, 1072, 32, 1085, 1077, 32, 1085, 1072, 1081, 1076, 1077, 1085, 1072]"

text \<open>
  \<open>HabrScraper._parse_date\<close>. The loop over the formats, whose \<open>except ValueError\<close>
  goes on to the next format and lets any other exception through to the outer
  handler; \<open>sp\<close> is \<open>datetime.strptime\<close>.
\<close>

fun format_loop ::
  "(pystr \<Rightarrow> pystr \<Rightarrow> exn + datetime) \<Rightarrow> platform \<Rightarrow> pystr \<Rightarrow> pystr list \<Rightarrow> exn + pystr" where
  "format_loop sp p date_str [] =
     Inr (if length date_str \<ge> 10 then take 10 date_str else date_str)"
| "format_loop sp p date_str (fmt # fmts) =
     (case sp date_str fmt of
        Inr parsed_date \<Rightarrow> Inr (strftime_ymd p parsed_date)
      | Inl e \<Rightarrow> if e = ValueError then format_loop sp p date_str fmts else Inl e)"

text \<open>
  The method, for any behaviour of \<open>strptime\<close>: the outer \<open>except Exception\<close> handles
  every exception class of \<open>exn\<close>.
\<close>

definition parse_date_with ::
  "(pystr \<Rightarrow> pystr \<Rightarrow> exn + datetime) \<Rightarrow> platform \<Rightarrow> pystr \<Rightarrow> exn + pystr" where
  "parse_date_with sp p date_str =
     (if date_str = [] then Inr date_not_found
      else
        (case format_loop sp p date_str date_formats of
           Inr r \<Rightarrow> Inr r
         | Inl e \<Rightarrow> Inr (if length date_str \<ge> 10 then take 10 date_str else date_not_found)))"

definition parse_date :: "platform \<Rightarrow> pystr \<Rightarrow> exn + pystr" where
  "parse_date p date_str = parse_date_with (strptime p) p date_str"

text \<open>The shape \<open>YYYY-MM-DD\<close>: four ASCII digits, a hyphen, two digits, a hyphen, two digits.\<close>

definition ascii_digit :: "nat \<Rightarrow> bool" where
  "ascii_digit c = (48 \<le> c \<and> c \<le> 57)"

definition is_yyyy_mm_dd :: "pystr \<Rightarrow> bool" where
  "is_yyyy_mm_dd s =
     (case s of
        [y1, y2, y3, y4, h1, m1, m2, h2, d1, d2] \<Rightarrow>
          ascii_digit y1 \<and> ascii_digit y2 \<and> ascii_digit y3 \<and> ascii_digit y4 \<and> h1 = 45
          \<and> ascii_digit m1 \<and> ascii_digit m2 \<and> h2 = 45 \<and> ascii_digit d1 \<and> ascii_digit d2
      | _ \<Rightarrow> False)"

text \<open>
  The specification's words: a string matches a format when \<open>strptime\<close> parses it
  with that format, it is recognised when it matches one of the four formats, and the
  first format of the list that it matches gives its date.
\<close>

definition parsed_by :: "platform \<Rightarrow> pystr \<Rightarrow> pystr \<Rightarrow> datetime option" where
  "parsed_by p s fmt = (case strptime p s fmt of Inr dt \<Rightarrow> Some dt | Inl e \<Rightarrow> None)"

definition first_parse :: "platform \<Rightarrow> pystr \<Rightarrow> datetime option" where
  "first_parse p s =
     (case List.map_filter (parsed_by p s) date_formats of [] \<Rightarrow> None | dt # dts \<Rightarrow> Some dt)"

definition recognized :: "platform \<Rightarrow> pystr \<Rightarrow> bool" where
  "recognized p s = list_ex (\<lambda>fmt. parsed_by p s fmt \<noteq> None) date_formats"

text \<open>A \<open>strptime\<close> that raises an exception other than \<open>ValueError\<close>, for comparison.\<close>

definition failing_strptime :: "pystr \<Rightarrow> pystr \<Rightarrow> exn + datetime" where
  "failing_strptime data_string format = Inl OtherException"

section \<open>The document tree\<close>

text \<open>
  What BeautifulSoup's \<open>html.parser\<close> builder hands over: strings and tags. A tag has
  a name, the tokens of its \<open>class\<close> attribute (the builder splits that attribute at
  white space; the list is empty when the attribute is missing), its other attributes
  as a dictionary from names to strings, and its children. \<open>Comment\<close> stands for the
  strings \<open>get_text\<close> leaves out (comments, declarations, script and style text).
\<close>

datatype node =
  NavigableString pystr
| Comment pystr
| Tag pystr "pystr list" "(pystr \<times> pystr) list" "node list"

text \<open>\<open>Tag.descendants\<close>: the nodes below a tag, in document order.\<close>

fun descendants :: "node \<Rightarrow> node list" where
  "descendants (Tag nm cls attrs contents) = concat (map (\<lambda>c. c # descendants c) contents)"
| "descendants (NavigableString s) = []"
| "descendants (Comment s) = []"

text \<open>
  \<open>find_all(name, class_=c)\<close> and \<open>find(name, class_=c)\<close>; \<open>None\<close> for a call without
  \<open>class_\<close>. A class given without white space matches a tag that has it among its
  class tokens.
\<close>

definition tag_matches :: "pystr \<Rightarrow> pystr option \<Rightarrow> node \<Rightarrow> bool" where
  "tag_matches name class_opt nd =
     (case nd of
        Tag nm cls attrs contents \<Rightarrow>
          nm = name \<and> (case class_opt of None \<Rightarrow> True | Some c \<Rightarrow> c \<in> set cls)
      | NavigableString s \<Rightarrow> False
      | Comment s \<Rightarrow> False)"

definition find_all :: "node \<Rightarrow> pystr \<Rightarrow> pystr option \<Rightarrow> node list" where
  "find_all nd name class_opt = filter (tag_matches name class_opt) (descendants nd)"

definition find_first :: "node \<Rightarrow> pystr \<Rightarrow> pystr option \<Rightarrow> node option" where
  "find_first nd name class_opt =
     (case find_all nd name class_opt of [] \<Rightarrow> None | x # xs \<Rightarrow> Some x)"

text \<open>\<open>Tag.get(key, default)\<close>.\<close>

definition tag_get :: "node \<Rightarrow> pystr \<Rightarrow> pystr \<Rightarrow> pystr" where
  "tag_get nd key dflt =
     (case nd of
        Tag nm cls attrs contents \<Rightarrow> (case map_of attrs key of None \<Rightarrow> dflt | Some v \<Rightarrow> v)
      | NavigableString s \<Rightarrow> dflt
      | Comment s \<Rightarrow> dflt)"

text \<open>
  \<open>Tag.get_text(strip=True)\<close>: the strings below the tag, each stripped, the empty
  ones dropped, joined without a separator.
\<close>

definition node_string :: "node \<Rightarrow> pystr option" where
  "node_string nd =
     (case nd of
        NavigableString s \<Rightarrow> Some s
      | Comment s \<Rightarrow> None
      | Tag nm cls attrs contents \<Rightarrow> None)"

definition get_text :: "platform \<Rightarrow> node \<Rightarrow> pystr" where
  "get_text p nd =
     concat (filter (\<lambda>s. s \<noteq> []) (map (strip p) (List.map_filter node_string (descendants nd))))"

text \<open>\<open>' '.join(parts)\<close>.\<close>

fun join_space :: "pystr list \<Rightarrow> pystr" where
  "join_space [] = []"
| "join_space [x] = x"
| "join_space (x # y # ys) = x @ [32] @ join_space (y # ys)"

section \<open>The extractor: \<open>_parse_article_preview\<close> and \<open>find_articles\<close>\<close>

record Article =
  title :: pystr
  link :: pystr
  date :: pystr
  preview_text :: pystr
  found_keywords :: "pystr list"

text \<open>Lines 166 to 168: the link is completed unless it starts with \<open>http\<close>.\<close>

definition startswith :: "pystr \<Rightarrow> pystr \<Rightarrow> bool" where
  "startswith s pre = (take (length pre) s = pre)"

definition full_link :: "pystr \<Rightarrow> pystr" where
  "full_link href =
     (if \<not> startswith href (cps ''http'') then cps ''https://habr.com'' @ href else href)"

text \<open>
  The five loops that collect texts for the preview: the stripped text of every
  element found, the empty ones left out.
\<close>

definition texts_of :: "platform \<Rightarrow> node \<Rightarrow> pystr \<Rightarrow> pystr \<Rightarrow> pystr list" where
  "texts_of p el name cls =
     filter (\<lambda>t. t \<noteq> []) (map (get_text p) (find_all el name (Some cls)))"

text \<open>Lines 155 and 156: the text of the span inside the link, or else of the link.\<close>

definition title_text :: "platform \<Rightarrow> node \<Rightarrow> pystr" where
  "title_text p title_link =
     (case find_first title_link (cps ''span'') None of
        Some title_span \<Rightarrow> get_text p title_span
      | None \<Rightarrow> get_text p title_link)"

text \<open>Lines 171 and 172: the \<open>datetime\<close> attribute of the first \<open>time\<close> element.\<close>

definition date_str_of :: "node \<Rightarrow> pystr" where
  "date_str_of article_element =
     (case find_first article_element (cps ''time'') None of
        Some date_element \<Rightarrow> tag_get date_element (cps ''datetime'') []
      | None \<Rightarrow> [])"

text \<open>Lines 176 to 218: the list \<open>preview_parts\<close>.\<close>

definition preview_parts :: "platform \<Rightarrow> node \<Rightarrow> pystr \<Rightarrow> pystr list" where
  "preview_parts p article_element title_str =
     [title_str]
     @ texts_of p article_element (cps ''div'') (cps ''tm-article-snippet__lead'')
     @ texts_of p article_element (cps ''div'') (cps ''tm-article-body'')
     @ texts_of p article_element (cps ''a'') (cps ''tm-article-snippet__hubs-item-link'')
     @ texts_of p article_element (cps ''a'') (cps ''tm-hub-link'')
     @ texts_of p article_element (cps ''a'') (cps ''tm-user-info__username'')
     @ [get_text p article_element]"

text \<open>
  \<open>HabrScraper._parse_article_preview\<close>; \<open>None\<close> is Python's \<open>None\<close>. An exception
  inside the \<open>try\<close> block ends in \<open>except Exception\<close>, which returns \<open>None\<close>.
\<close>

definition parse_article_preview :: "platform \<Rightarrow> scraper \<Rightarrow> node \<Rightarrow> Article option" where
  "parse_article_preview p sc article_element =
     (case find_first article_element (cps ''h2'') (Some (cps ''tm-title'')) of
        None \<Rightarrow> None
      | Some title_element \<Rightarrow>
          (case find_first title_element (cps ''a'') (Some (cps ''tm-title__link'')) of
             None \<Rightarrow> None
           | Some title_link \<Rightarrow>
               if title_text p title_link = [] then None
               else if tag_get title_link (cps ''href'') [] = [] then None
               else
                 (case parse_date p (date_str_of article_element) of
                    Inl e \<Rightarrow> None
                  | Inr formatted_date \<Rightarrow>
                      (case find_keywords_with_regex p sc
                              (join_space (preview_parts p article_element
                                             (title_text p title_link))) of
                         Inl e \<Rightarrow> None
                       | Inr found \<Rightarrow>
                           if found = [] then None
                           else Some \<lparr>title = title_text p title_link,
                                       link = full_link (tag_get title_link (cps ''href'') []),
                                       date = formatted_date,
                                       preview_text =
                                         join_space (preview_parts p article_element
                                                       (title_text p title_link)),
                                       found_keywords = found\<rparr>))))"

text \<open>
  The link element of the title of a fragment, if it has one, and the conditions of
  the specification under which a fragment fails a mandatory step: no title
  container, no link in it, an empty title text, or no link target.
\<close>

definition title_link_of :: "node \<Rightarrow> node option" where
  "title_link_of article_element =
     (case find_first article_element (cps ''h2'') (Some (cps ''tm-title'')) of
        None \<Rightarrow> None
      | Some title_element \<Rightarrow> find_first title_element (cps ''a'') (Some (cps ''tm-title__link'')))"


text \<open>
  The specification's test for an absolute link: the string starts with a URI scheme,
  that is a letter, then letters, digits, \<open>+\<close>, \<open>-\<close> or \<open>.\<close>, then a colon.
\<close>

definition scheme_char :: "nat \<Rightarrow> bool" where
  "scheme_char c = (ascii_letter c \<or> ascii_digit c \<or> c = 43 \<or> c = 45 \<or> c = 46)"

definition starts_with_uri_scheme :: "pystr \<Rightarrow> bool" where
  "starts_with_uri_scheme s =
     (case s of
        [] \<Rightarrow> False
      | c # cs \<Rightarrow>
          ascii_letter c
          \<and> (case dropWhile scheme_char cs of [] \<Rightarrow> False | d # ds \<Rightarrow> d = 58))"

text \<open>The loop of \<open>find_articles\<close> over the fragments (lines 260 to 264).\<close>

fun collect_articles :: "platform \<Rightarrow> scraper \<Rightarrow> node list \<Rightarrow> Article list \<Rightarrow> Article list" where
  "collect_articles p sc [] articles = articles"
| "collect_articles p sc (article_element # rest) articles =
     (case parse_article_preview p sc article_element of
        Some article \<Rightarrow> collect_articles p sc rest (articles @ [article])
      | None \<Rightarrow> collect_articles p sc rest articles)"

text \<open>
  \<open>HabrScraper.find_articles\<close>. \<open>BeautifulSoup(html, 'html.parser')\<close> is the parameter
  \<open>soup_of\<close>; \<open>not html\<close> holds for \<open>None\<close> and for the empty string. The second
  component is the list of the sleeps of the fetch.
\<close>

definition find_articles ::
  "platform \<Rightarrow> scraper \<Rightarrow> (nat \<Rightarrow> exn + response) \<Rightarrow> (pystr \<Rightarrow> node) \<Rightarrow> (exn + Article list) \<times> nat list" where
  "find_articles p sc net soup_of =
     (case get_page_with_retry sc net of
        (Inl e, slept) \<Rightarrow> (Inl e, slept)
      | (Inr None, slept) \<Rightarrow> (Inr [], slept)
      | (Inr (Some html), slept) \<Rightarrow>
          if html = [] then (Inr [], slept)
          else (Inr (collect_articles p sc
                       (find_all (soup_of html) (cps ''article'') (Some (cps ''tm-articles-list__item'')))
                       []),
                slept))"

section \<open>Example inputs\<close>

text \<open>
  A listing fragment with a title, a link target and a date, as the site writes
  them, and a fragment whose title link has no \<open>href\<close>.
\<close>

definition example_fragment :: "pystr \<Rightarrow> pystr \<Rightarrow> node" where
  "example_fragment href title_str =
     Tag (cps ''article'') [cps ''tm-articles-list__item''] []
       [Tag (cps ''h2'') [cps ''tm-title''] []
          [Tag (cps ''a'') [cps ''tm-title__link''] [(cps ''href'', href)]
             [Tag (cps ''span'') [] [] [NavigableString title_str]]],
        Tag (cps ''time'') [] [(cps ''datetime'', cps ''2024-01-05T10:20:30.000Z'')] []]"

definition fragment_without_href :: node where
  "fragment_without_href =
     Tag (cps ''article'') [cps ''tm-articles-list__item''] []
       [Tag (cps ''h2'') [cps ''tm-title''] []
          [Tag (cps ''a'') [cps ''tm-title__link''] []
             [Tag (cps ''span'') [] [] [NavigableString (cps ''Python tips'')]]]]"

definition example_scraper :: scraper where
  "example_scraper = scraper_init ascii_platform [cps ''Python'', cps ''web''] 3"

text \<open>
  A network that answers the first call with a page, and a parsed page with three
  fragments: one that matches a keyword, one without a link target, and one that
  matches no keyword.
\<close>

definition example_net :: "nat \<Rightarrow> exn + response" where
  "example_net i =
     Inr \<lparr>status_code = 200, content_type = Some (cps ''text/html''),
          resp_text = cps ''<html>...</html>''\<rparr>"

definition example_soup :: "pystr \<Rightarrow> node" where
  "example_soup html =
     Tag (cps ''[document]'') [] []
       [example_fragment (cps ''/ru/articles/123/'') (cps ''Python tips''),
        fragment_without_href,
        example_fragment (cps ''/ru/articles/124/'') (cps ''Cooking'')]"

section \<open>Auxiliary notions for the proofs\<close>

text \<open>The character before the position reached after reading \<open>pre\<close>.\<close>

definition prev_of :: "pystr \<Rightarrow> nat option" where
  "prev_of pre = (if pre = [] then None else Some (last pre))"

section \<open>Properties of the fetcher\<close>

declare get_page_loop.simps [simp del]




lemma time_sleep_overflow: "time_sleep (2 ^ 34) = Inl OverflowError"
  by (simp add: time_sleep_def)

















section \<open>Properties of keyword matching\<close>

lemma prev_of_simps [simp]: "prev_of [] = None" "prev_of (pre @ [x]) = Some x"
  by (simp_all add: prev_of_def)

lemma at_boundary_word_edge: "at_boundary p (prev_of pre) rest = word_edge p pre rest"
  by (cases rest) (auto simp: at_boundary_def word_edge_def prev_of_def)

lemma sre_match_literals:
  "sre_match p (map LITERAL w @ ns) (prev_of pre) rest =
   (\<exists>mid post. rest = mid @ post \<and> list_all2 (literal_ignorecase p) w mid
      \<and> sre_match p ns (prev_of (pre @ mid)) post)"
proof (induction w arbitrary: pre rest)
  case Nil
  then show ?case by simp
next
  case (Cons a w)
  show ?case
  proof (cases rest)
    case Nil
    then show ?thesis by simp
  next
    case (Cons x xs)
    have "sre_match p (map LITERAL (a # w) @ ns) (prev_of pre) rest =
          (literal_ignorecase p a x \<and> sre_match p (map LITERAL w @ ns) (prev_of (pre @ [x])) xs)"
      using Cons by simp
    also have "\<dots> = (literal_ignorecase p a x \<and> (\<exists>mid post. xs = mid @ post \<and> list_all2 (literal_ignorecase p) w mid
      \<and> sre_match p ns (prev_of ((pre @ [x]) @ mid)) post))"
      using Cons.IH [of "pre @ [x]" xs] by simp
    also have "\<dots> = (\<exists>mid post. rest = mid @ post \<and> list_all2 (literal_ignorecase p) (a # w) mid
      \<and> sre_match p ns (prev_of (pre @ mid)) post)"
      (is "?L = ?R")
    proof
      assume ?L
      then obtain mid post where "literal_ignorecase p a x" "xs = mid @ post" "list_all2 (literal_ignorecase p) w mid"
        "sre_match p ns (prev_of ((pre @ [x]) @ mid)) post" by blast
      then have "rest = (x # mid) @ post \<and> list_all2 (literal_ignorecase p) (a # w) (x # mid)
          \<and> sre_match p ns (prev_of (pre @ (x # mid))) post"
        using Cons by simp
      then show ?R by blast
    next
      assume ?R
      then obtain mid post where m: "rest = mid @ post" "list_all2 (literal_ignorecase p) (a # w) mid"
        "sre_match p ns (prev_of (pre @ mid)) post" by blast
      from m(2) obtain y ys where mid: "mid = y # ys" "literal_ignorecase p a y" "list_all2 (literal_ignorecase p) w ys"
        by (auto simp: list_all2_Cons1)
      with m Cons have "x = y" "xs = ys @ post" by simp_all
      with m mid show ?L by auto
    qed
    finally show ?thesis .
  qed
qed

lemma sre_match_keyword:
  "sre_match p (compile_keyword w) (prev_of pre) rest =
   (\<exists>mid post. rest = mid @ post \<and> list_all2 (literal_ignorecase p) w mid
      \<and> word_edge p pre rest \<and> word_edge p (pre @ mid) post)"
  using sre_match_literals [of p w "[AT_BOUNDARY]" pre rest]
  by (auto simp: compile_keyword_def at_boundary_word_edge)

lemma sre_search_split:
  "sre_search p ns (prev_of pre) rest =
   (\<exists>a b. rest = a @ b \<and> sre_match p ns (prev_of (pre @ a)) b)"
proof (induction rest arbitrary: pre)
  case Nil
  then show ?case by simp
next
  case (Cons x xs)
  have "sre_search p ns (prev_of pre) (x # xs) =
        (sre_match p ns (prev_of pre) (x # xs) \<or> (\<exists>a b. xs = a @ b \<and> sre_match p ns (prev_of ((pre @ [x]) @ a)) b))"
    using Cons [of "pre @ [x]"] by simp
  also have "\<dots> = (\<exists>a b. x # xs = a @ b \<and> sre_match p ns (prev_of (pre @ a)) b)"
    (is "?L = ?R")
  proof
    assume ?L
    then show ?R
    proof
      assume "sre_match p ns (prev_of pre) (x # xs)"
      then have "x # xs = [] @ (x # xs) \<and> sre_match p ns (prev_of (pre @ [])) (x # xs)" by simp
      then show ?R by blast
    next
      assume "\<exists>a b. xs = a @ b \<and> sre_match p ns (prev_of ((pre @ [x]) @ a)) b"
      then obtain a b where "xs = a @ b" "sre_match p ns (prev_of ((pre @ [x]) @ a)) b" by blast
      then have "x # xs = (x # a) @ b \<and> sre_match p ns (prev_of (pre @ (x # a))) b" by simp
      then show ?R by blast
    qed
  next
    assume ?R
    then obtain a b where ab: "x # xs = a @ b" "sre_match p ns (prev_of (pre @ a)) b" by blast
    show ?L
    proof (cases a)
      case Nil
      with ab show ?thesis by simp
    next
      case (Cons y ys)
      with ab have "xs = ys @ b" "sre_match p ns (prev_of ((pre @ [x]) @ ys)) b" by simp_all
      then show ?thesis by blast
    qed
  qed
  finally show ?case .
qed

lemma pattern_search_keyword:
  "pattern_search p (compile_keyword w) t = occurs_as_whole_word p w t"
proof -
  have "pattern_search p (compile_keyword w) t =
        (\<exists>a b. t = a @ b \<and> sre_match p (compile_keyword w) (prev_of a) b)"
    using sre_search_split [of p "compile_keyword w" "[]" t] by (simp add: pattern_search_def)
  also have "\<dots> = (\<exists>a b. t = a @ b \<and> (\<exists>mid post. b = mid @ post \<and> list_all2 (literal_ignorecase p) w mid
      \<and> word_edge p a b \<and> word_edge p (a @ mid) post))"
    by (simp add: sre_match_keyword)
  also have "\<dots> = occurs_as_whole_word p w t"
    unfolding occurs_as_whole_word_def by blast
  finally show ?thesis .
qed

lemma find_keywords_loop_filter:
  "pats = map compile_keyword (drop i kws) \<Longrightarrow>
   find_keywords_loop p kws text i pats found =
     Inr (found @ filter (\<lambda>k. pattern_search p (compile_keyword k) text) (drop i kws))"
proof (induction pats arbitrary: i found)
  case Nil
  then show ?case by simp
next
  case (Cons pat pats)
  then have lt: "i < length kws" by (cases "i < length kws") auto
  then have d: "drop i kws = kws ! i # drop (Suc i) kws"
    by (simp add: Cons_nth_drop_Suc)
  with Cons.prems have pat: "pat = compile_keyword (kws ! i)" and pats: "pats = map compile_keyword (drop (Suc i) kws)"
    by simp_all
  show ?case
    using Cons.IH [OF pats] lt pat d by simp
qed

lemma find_keywords_init:
  "find_keywords_with_regex p (scraper_init p K n) t =
     Inr (filter (\<lambda>k. occurs_as_whole_word p k t) (map (str_lower p) K))"
  using find_keywords_loop_filter [of "map compile_keyword (map (str_lower p) K)" 0 "map (str_lower p) K" p t "[]"]
  by (simp add: find_keywords_with_regex_def scraper_init_def pattern_search_keyword)

text \<open>
  C2 (as stated, refuted). The constructor lowercases the keywords, so for the keyword
  list \<open>["Python"]\<close> and the text \<open>"I like Python"\<close> the result is \<open>["python"]\<close>,
  which is not a subset of the keyword list.
\<close>

theorem C2_uppercase_keyword_counterexample:
  "find_keywords_with_regex ascii_platform (scraper_init ascii_platform [cps ''Python''] 3)
     (cps ''I like Python'') = Inr [cps ''python'']
   \<and> \<not> set [cps ''python''] \<subseteq> set [cps ''Python'']"
  by code_simp

text \<open>
  C2 (amended). For every keyword list K and every text T the matcher returns (and
  does not raise) a subsequence of the lowercased keyword list: K's order is kept and
  every position of K contributes at most once. The result is empty if and only if no
  lowercased keyword of K occurs in T as a case-insensitive whole word, anchored at
  word boundaries.
\<close>

theorem C2_matched_keywords:
  "\<exists>found. find_keywords_with_regex p (scraper_init p K n) T = Inr found
      \<and> subseq found (map (str_lower p) K)
      \<and> (found = [] \<longleftrightarrow> (\<forall>k \<in> set K. \<not> occurs_as_whole_word p (str_lower p k) T))"
  by (auto simp: find_keywords_init filter_empty_conv)

theorem C2_matched_keywords_witness:
  "find_keywords_with_regex ascii_platform (scraper_init ascii_platform [cps ''Python'', cps ''web''] 3)
     (cps ''I like Python'') = Inr [cps ''python'']
   \<and> (\<exists>k \<in> set [cps ''Python'', cps ''web''].
         occurs_as_whole_word ascii_platform (str_lower ascii_platform k) (cps ''I like Python''))
   \<and> find_keywords_with_regex ascii_platform (scraper_init ascii_platform [cps ''Python'', cps ''web''] 3)
     (cps ''pythonic'') = Inr []
   \<and> \<not> occurs_as_whole_word ascii_platform (str_lower ascii_platform (cps ''Python''))
         (cps ''pythonic'')
   \<and> \<not> occurs_as_whole_word ascii_platform (str_lower ascii_platform (cps ''web''))
         (cps ''pythonic'')"
proof -
  have a: "find_keywords_with_regex ascii_platform (scraper_init ascii_platform [cps ''Python'', cps ''web''] 3)
     (cps ''I like Python'') = Inr [cps ''python'']"
    by code_simp
  have b: "find_keywords_with_regex ascii_platform (scraper_init ascii_platform [cps ''Python'', cps ''web''] 3)
     (cps ''pythonic'') = Inr []"
    by code_simp
  show ?thesis
    using C2_matched_keywords [of ascii_platform "[cps ''Python'', cps ''web'']" 3 "cps ''I like Python''"]
          C2_matched_keywords [of ascii_platform "[cps ''Python'', cps ''web'']" 3 "cps ''pythonic''"]
    unfolding a b by auto
qed

section \<open>Properties of the extractor\<close>

lemma parse_article_preview_Some:
  assumes "parse_article_preview p sc el = Some a"
  shows "\<exists>tl. title_link_of el = Some tl \<and> title a = title_text p tl \<and> title a \<noteq> []
            \<and> tag_get tl (cps ''href'') [] \<noteq> [] \<and> link a = full_link (tag_get tl (cps ''href'') [])
            \<and> parse_date p (date_str_of el) = Inr (date a)
            \<and> preview_text a = join_space (preview_parts p el (title_text p tl))
            \<and> find_keywords_with_regex p sc (preview_text a) = Inr (found_keywords a)
            \<and> found_keywords a \<noteq> []"
  using assms
  by (auto simp: parse_article_preview_def title_link_of_def split: option.splits sum.splits if_splits)


lemma collect_articles_map_filter:
  "collect_articles p sc els acc = acc @ List.map_filter (parse_article_preview p sc) els"
  by (induction els arbitrary: acc) (auto simp: List.map_filter_simps split: option.splits)

lemma full_link_nonempty: "href \<noteq> [] \<Longrightarrow> full_link href \<noteq> []"
  by (simp add: full_link_def)


lemma ascii_platform_lower_idem:
  "str_lower ascii_platform (str_lower ascii_platform s) = str_lower ascii_platform s"
proof -
  have l: "str_lower ascii_platform t = map ascii_lower t" for t
    by (simp add: str_lower_def ascii_platform_def)
  have "ascii_lower (ascii_lower c) = ascii_lower c" for c
    by (simp add: ascii_lower_def)
  then show ?thesis
    by (simp add: l)
qed

lemma ascii_upper_not_lower:
  assumes "is_ascii k" and "\<exists>c \<in> set k. 65 \<le> c \<and> c \<le> 90"
  shows "str_lower p k \<noteq> k"
proof
  assume "str_lower p k = k"
  with assms(1) have "map ascii_lower k = map id k"
    by (simp add: str_lower_def)
  then have "\<forall>c \<in> set k. ascii_lower c = id c"
    by (simp only: map_eq_conv)
  with assms(2) show False
    by (auto simp: ascii_lower_def)
qed

text \<open>
  C9 (as stated, refuted). Not every uppercase letter has a lowercase form: U+03D2 is
  an uppercase letter that \<open>str.lower\<close> leaves as it is. The keyword made of it
  contains an uppercase letter and appears verbatim in the record of a fragment whose
  title is \<open>a\<close>, U+03D2, \<open>b\<close>, separated by blanks.
\<close>

theorem C9_uncased_uppercase_counterexample:
  "is_upper upsilon_platform 978
   \<and> str_lower upsilon_platform [978] = [978]
   \<and> map_option found_keywords
        (parse_article_preview upsilon_platform (scraper_init upsilon_platform [[978]] 3)
           (example_fragment (cps ''/ru/articles/126/'') [97, 32, 978, 32, 98]))
       = Some [[978]]"
  by code_simp

text \<open>
  C9 (amended). Every matched keyword of every record is the lowercased form of a
  configured keyword. A configured keyword that differs from its lowercased form, as
  every ASCII keyword with a letter from A to Z does, never appears in a record;
  lowercasing a lowercased string changes nothing.
\<close>

theorem C9_matched_keywords_are_lowercased:
  assumes "\<forall>s. str_lower p (str_lower p s) = str_lower p s"
    and "parse_article_preview p (scraper_init p K n) el = Some a"
  shows "(\<forall>r \<in> set (found_keywords a). \<exists>k \<in> set K. r = str_lower p k)
         \<and> (\<forall>k \<in> set K. str_lower p k \<noteq> k \<longrightarrow> k \<notin> set (found_keywords a))
         \<and> (\<forall>k \<in> set K. is_ascii k \<and> (\<exists>c \<in> set k. 65 \<le> c \<and> c \<le> 90) \<longrightarrow>
               k \<notin> set (found_keywords a))"
proof -
  have "find_keywords_with_regex p (scraper_init p K n) (preview_text a) = Inr (found_keywords a)"
    using parse_article_preview_Some [OF assms(2)] by blast
  then have "found_keywords a
      = filter (\<lambda>k. occurs_as_whole_word p k (preview_text a)) (map (str_lower p) K)"
    by (simp add: find_keywords_init)
  then have "set (found_keywords a) \<subseteq> set (map (str_lower p) K)"
    using filter_is_subset [of "\<lambda>k. occurs_as_whole_word p k (preview_text a)" "map (str_lower p) K"]
    by simp
  then have sub: "set (found_keywords a) \<subseteq> str_lower p ` set K"
    by simp
  have lowered: "\<exists>k \<in> set K. r = str_lower p k" if "r \<in> set (found_keywords a)" for r
    using sub that by blast
  have changed: "k \<notin> set (found_keywords a)" if "str_lower p k \<noteq> k" for k
  proof
    assume "k \<in> set (found_keywords a)"
    with sub obtain k' where "k = str_lower p k'" by blast
    then have "str_lower p k = k" using assms(1) by metis
    with that show False by simp
  qed
  have "k \<notin> set (found_keywords a)" if "is_ascii k" "\<exists>c \<in> set k. 65 \<le> c \<and> c \<le> 90" for k
    using changed [of k] ascii_upper_not_lower [OF that, of p] by blast
  with lowered changed show ?thesis
    by blast
qed

lemma example_record:
  "parse_article_preview ascii_platform example_scraper
     (example_fragment (cps ''/ru/articles/123/'') (cps ''Python tips''))
   = Some \<lparr>title = cps ''Python tips'', link = cps ''https://habr.com/ru/articles/123/'',
           date = cps ''2024-01-05'', preview_text = cps ''Python tips Python tips'',
           found_keywords = [cps ''python'']\<rparr>"
  by code_simp

theorem C9_matched_keywords_are_lowercased_witness:
  "(\<exists>k \<in> set [cps ''Python'', cps ''web'']. cps ''python'' = str_lower ascii_platform k)
   \<and> str_lower ascii_platform (cps ''Python'') \<noteq> cps ''Python''
   \<and> cps ''Python'' \<notin> set [cps ''python'']"
proof -
  have ne: "str_lower ascii_platform (cps ''Python'') \<noteq> cps ''Python''"
    by code_simp
  show ?thesis
    using C9_matched_keywords_are_lowercased
            [of ascii_platform "[cps ''Python'', cps ''web'']" 3
                "example_fragment (cps ''/ru/articles/123/'') (cps ''Python tips'')"
                "\<lparr>title = cps ''Python tips'', link = cps ''https://habr.com/ru/articles/123/'',
           date = cps ''2024-01-05'', preview_text = cps ''Python tips Python tips'',
           found_keywords = [cps ''python'']\<rparr>"]
          ascii_platform_lower_idem example_record ne
    by (simp add: example_scraper_def)
qed

lemma find_articles_records:
  assumes "fst (find_articles p sc net soup_of) = Inr arts" and "a \<in> set arts"
  shows "\<exists>el. parse_article_preview p sc el = Some a"
proof -
  have "\<exists>els. arts = List.map_filter (parse_article_preview p sc) els"
    using assms(1)
    by (auto simp: find_articles_def collect_articles_map_filter List.map_filter_simps
             split: prod.splits sum.splits option.splits if_splits
             intro: exI [of _ "[]"])
  then obtain els where "arts = List.map_filter (parse_article_preview p sc) els" ..
  with assms(2) show ?thesis
    by (auto simp: List.map_filter_def)
qed

text \<open>
  C3. Every record the extractor builds, from one fragment or in the list
  \<open>find_articles\<close> returns, has a non-empty list of matched keywords, a non-empty
  title and a non-empty link; the matched keywords are those found in the record's own
  preview text, so a fragment where none is found gives no record.
\<close>

theorem C3_record_invariants:
  "(parse_article_preview p sc el = Some a \<longrightarrow>
      found_keywords a \<noteq> [] \<and> title a \<noteq> [] \<and> link a \<noteq> []
      \<and> find_keywords_with_regex p sc (preview_text a) = Inr (found_keywords a))
   \<and> (fst (find_articles p sc net soup_of) = Inr arts \<longrightarrow>
        (\<forall>r \<in> set arts. found_keywords r \<noteq> [] \<and> title r \<noteq> [] \<and> link r \<noteq> []))"
proof -
  have one: "found_keywords r \<noteq> [] \<and> title r \<noteq> [] \<and> link r \<noteq> []
      \<and> find_keywords_with_regex p sc (preview_text r) = Inr (found_keywords r)"
    if "parse_article_preview p sc el' = Some r" for el' r
    using parse_article_preview_Some [OF that] by (metis full_link_nonempty)
  have "found_keywords r \<noteq> [] \<and> title r \<noteq> [] \<and> link r \<noteq> []"
    if "fst (find_articles p sc net soup_of) = Inr arts" and "r \<in> set arts" for r
    using find_articles_records [OF that] one by blast
  with one show ?thesis
    by blast
qed

lemma example_listing:
  "fst (find_articles ascii_platform example_scraper example_net example_soup)
   = Inr [\<lparr>title = cps ''Python tips'', link = cps ''https://habr.com/ru/articles/123/'',
            date = cps ''2024-01-05'', preview_text = cps ''Python tips Python tips'',
            found_keywords = [cps ''python'']\<rparr>]"
  by code_simp


theorem C3_record_invariants_witness:
  "(let a = \<lparr>title = cps ''Python tips'', link = cps ''https://habr.com/ru/articles/123/'',
              date = cps ''2024-01-05'', preview_text = cps ''Python tips Python tips'',
              found_keywords = [cps ''python'']\<rparr>
    in parse_article_preview ascii_platform example_scraper
         (example_fragment (cps ''/ru/articles/123/'') (cps ''Python tips'')) = Some a
       \<and> fst (find_articles ascii_platform example_scraper example_net example_soup) = Inr [a]
       \<and> found_keywords a \<noteq> [] \<and> title a \<noteq> [] \<and> link a \<noteq> [])"
  using C3_record_invariants
          [of ascii_platform example_scraper
              "example_fragment (cps ''/ru/articles/123/'') (cps ''Python tips'')"
              "\<lparr>title = cps ''Python tips'', link = cps ''https://habr.com/ru/articles/123/'',
                date = cps ''2024-01-05'', preview_text = cps ''Python tips Python tips'',
                found_keywords = [cps ''python'']\<rparr>"
              example_net example_soup
              "[\<lparr>title = cps ''Python tips'', link = cps ''https://habr.com/ru/articles/123/'',
                date = cps ''2024-01-05'', preview_text = cps ''Python tips Python tips'',
                found_keywords = [cps ''python'']\<rparr>]"]
        example_record example_listing
  by (simp add: Let_def)

text \<open>
  C6 (as stated, refuted). The test is \<open>startswith('http')\<close>, not a test for a URI
  scheme: the target \<open>ftp://files.example/a\<close> starts with the scheme \<open>ftp\<close> and is
  still prefixed with the base origin.
\<close>

theorem C6_other_scheme_counterexample:
  "starts_with_uri_scheme (cps ''ftp://files.example/a'')
   \<and> map_option link
        (parse_article_preview ascii_platform example_scraper
           (example_fragment (cps ''ftp://files.example/a'') (cps ''Python tips'')))
       = Some (cps ''https://habr.comftp://files.example/a'')
   \<and> cps ''https://habr.comftp://files.example/a'' \<noteq> cps ''ftp://files.example/a''"
  by code_simp

text \<open>
  C6 (amended). The link of every record is the \<open>href\<close> of the fragment's title link,
  with the base origin \<open>https://habr.com\<close> put in front if the \<open>href\<close> does not start
  with the four characters \<open>http\<close>, and unchanged otherwise; the relative
  \<open>/ru/articles/123/\<close> becomes \<open>https://habr.com/ru/articles/123/\<close>.
\<close>

theorem C6_link_resolution:
  "(parse_article_preview p sc el = Some a \<longrightarrow>
      (\<exists>title_link. title_link_of el = Some title_link
         \<and> link a =
             (if startswith (tag_get title_link (cps ''href'') []) (cps ''http'')
              then tag_get title_link (cps ''href'') []
              else cps ''https://habr.com'' @ tag_get title_link (cps ''href'') [])))
   \<and> full_link (cps ''/ru/articles/123/'') = cps ''https://habr.com/ru/articles/123/''"
proof (intro conjI impI)
  assume "parse_article_preview p sc el = Some a"
  from parse_article_preview_Some [OF this]
  show "\<exists>title_link. title_link_of el = Some title_link
         \<and> link a =
             (if startswith (tag_get title_link (cps ''href'') []) (cps ''http'')
              then tag_get title_link (cps ''href'') []
              else cps ''https://habr.com'' @ tag_get title_link (cps ''href'') [])"
    by (auto simp: full_link_def)
next
  show "full_link (cps ''/ru/articles/123/'') = cps ''https://habr.com/ru/articles/123/''"
    by code_simp
qed

theorem C6_link_resolution_witness:
  "map_option link
     (parse_article_preview ascii_platform example_scraper
        (example_fragment (cps ''/ru/articles/123/'') (cps ''Python tips'')))
   = Some (cps ''https://habr.com/ru/articles/123/'')
   \<and> (\<exists>title_link.
         title_link_of (example_fragment (cps ''/ru/articles/123/'') (cps ''Python tips''))
           = Some title_link
         \<and> cps ''https://habr.com/ru/articles/123/'' =
             (if startswith (tag_get title_link (cps ''href'') []) (cps ''http'')
              then tag_get title_link (cps ''href'') []
              else cps ''https://habr.com'' @ tag_get title_link (cps ''href'') []))"
  using C6_link_resolution
          [of ascii_platform example_scraper
              "example_fragment (cps ''/ru/articles/123/'') (cps ''Python tips'')"
              "\<lparr>title = cps ''Python tips'', link = cps ''https://habr.com/ru/articles/123/'',
                date = cps ''2024-01-05'', preview_text = cps ''Python tips Python tips'',
                found_keywords = [cps ''python'']\<rparr>"]
        example_record
  by simp




section \<open>Properties of date normalization\<close>

lemma make_datetime_error: "make_datetime y m d H M S f = Inl e \<Longrightarrow> e = ValueError"
  by (simp add: make_datetime_def split: if_splits)

lemma make_datetime_valid:
  "make_datetime y m d H M S f = Inr dt \<Longrightarrow>
   1 \<le> dt_year dt \<and> dt_year dt \<le> 9999 \<and> 1 \<le> dt_month dt \<and> dt_month dt \<le> 12
   \<and> 1 \<le> dt_day dt \<and> dt_day dt \<le> days_in_month (dt_year dt) (dt_month dt)"
  by (cases "1 \<le> y \<and> y \<le> 9999 \<and> 1 \<le> m \<and> m \<le> 12 \<and> 1 \<le> d \<and> d \<le> days_in_month y m
         \<and> H \<le> 23 \<and> M \<le> 59 \<and> S \<le> 59 \<and> f \<le> 999999")
     (auto simp: make_datetime_def)

lemma datetime_of_groups_cases:
  "datetime_of_groups p caps = Inl ValueError
   \<or> (\<exists>y m d H M S f. datetime_of_groups p caps = make_datetime y m d H M S f)"
  by (simp add: datetime_of_groups_def split: option.splits) blast

lemma datetime_of_groups_error: "datetime_of_groups p caps = Inl e \<Longrightarrow> e = ValueError"
  using datetime_of_groups_cases [of p caps] make_datetime_error by fastforce

lemma datetime_of_groups_valid:
  "datetime_of_groups p caps = Inr dt \<Longrightarrow>
   1 \<le> dt_year dt \<and> dt_year dt \<le> 9999 \<and> 1 \<le> dt_month dt \<and> dt_month dt \<le> 12
   \<and> 1 \<le> dt_day dt \<and> dt_day dt \<le> days_in_month (dt_year dt) (dt_month dt)"
  using datetime_of_groups_cases [of p caps] make_datetime_valid by fastforce

lemma strptime_cases:
  "strptime p s fmt = Inl ValueError \<or> (\<exists>caps. strptime p s fmt = datetime_of_groups p caps)"
  by (simp add: strptime_def split: option.splits list.splits prod.splits) blast

lemma strptime_error: "strptime p s fmt = Inl e \<Longrightarrow> e = ValueError"
  using strptime_cases [of p s fmt] datetime_of_groups_error by fastforce

lemma strptime_valid:
  "strptime p s fmt = Inr dt \<Longrightarrow>
   1 \<le> dt_year dt \<and> dt_year dt \<le> 9999 \<and> 1 \<le> dt_month dt \<and> dt_month dt \<le> 12
   \<and> 1 \<le> dt_day dt \<and> dt_day dt \<le> days_in_month (dt_year dt) (dt_month dt)"
  using strptime_cases [of p s fmt] datetime_of_groups_valid by fastforce

lemma format_loop_strptime:
  "format_loop (strptime p) p s fmts =
     Inr (case List.map_filter (parsed_by p s) fmts of
            [] \<Rightarrow> (if 10 \<le> length s then take 10 s else s)
          | dt # dts \<Rightarrow> strftime_ymd p dt)"
proof (induction fmts)
  case Nil
  then show ?case by (simp add: List.map_filter_simps)
next
  case (Cons fmt fmts)
  show ?case
  proof (cases "strptime p s fmt")
    case (Inl e)
    then have "e = ValueError" by (rule strptime_error)
    with Inl Cons show ?thesis
      by (simp add: List.map_filter_simps parsed_by_def)
  next
    case (Inr dt)
    then show ?thesis
      by (simp add: List.map_filter_simps parsed_by_def)
  qed
qed

lemma parse_date_eq:
  "parse_date p s =
     Inr (if s = [] then date_not_found
          else (case first_parse p s of
                  Some dt \<Rightarrow> strftime_ymd p dt
                | None \<Rightarrow> (if 10 \<le> length s then take 10 s else s)))"
  by (simp add: parse_date_def parse_date_with_def format_loop_strptime first_parse_def
           split: list.splits)

lemma recognized_first_parse: "recognized p s = (first_parse p s \<noteq> None)"
proof -
  have "list_ex (\<lambda>fmt. parsed_by p s fmt \<noteq> None) fmts = (List.map_filter (parsed_by p s) fmts \<noteq> [])" for fmts
    by (induction fmts) (auto simp: List.map_filter_simps split: option.splits)
  then show ?thesis
    by (simp add: recognized_def first_parse_def split: list.splits)
qed

lemma first_parse_valid:
  assumes "first_parse p s = Some dt"
  shows "1 \<le> dt_year dt \<and> dt_year dt \<le> 9999 \<and> 1 \<le> dt_month dt \<and> dt_month dt \<le> 12
   \<and> 1 \<le> dt_day dt \<and> dt_day dt \<le> days_in_month (dt_year dt) (dt_month dt)"
proof -
  have "dt \<in> set (List.map_filter (parsed_by p s) date_formats)"
    using assms by (auto simp: first_parse_def split: list.splits)
  then obtain fmt where "parsed_by p s fmt = Some dt"
    by (auto simp: List.map_filter_def)
  then have "strptime p s fmt = Inr dt"
    by (auto simp: parsed_by_def split: sum.splits)
  then show ?thesis by (rule strptime_valid)
qed

lemma ascii_digit_digit_char: "ascii_digit (digit_char n)"
  by (simp add: ascii_digit_def digit_char_def)

lemma pad4_no_leading_zero:
  "1000 \<le> y \<Longrightarrow> y \<le> 9999 \<Longrightarrow> dropWhile (\<lambda>c. c = 48) (pad4 y) = pad4 y"
proof -
  assume a: "1000 \<le> y" "y \<le> 9999"
  have "y div 1000 < 10"
    using a by (simp add: div_less_iff_less_mult)
  moreover have "0 < y div 1000"
    using a by (simp add: div_greater_zero_iff)
  ultimately have "y div 1000 mod 10 \<noteq> 0" by simp
  then show ?thesis by (simp add: pad4_def digit_char_def)
qed

lemma is_yyyy_mm_dd_strftime:
  "pads_year p \<or> 1000 \<le> dt_year dt \<Longrightarrow> dt_year dt \<le> 9999 \<Longrightarrow> is_yyyy_mm_dd (strftime_ymd p dt)"
  by (auto simp: strftime_ymd_def year_str_def pad4_no_leading_zero)
     (simp_all add: is_yyyy_mm_dd_def pad4_def pad2_def ascii_digit_digit_char)

lemma parse_date_with_total: "\<exists>r. parse_date_with sp p s = Inr r"
  by (simp add: parse_date_with_def split: sum.splits)

lemma pattern_ymd:
  "pattern p (cps ''%Y-%m-%d'') =
     Some [Group 89 [[Dgt, Dgt, Dgt, Dgt]], Literal 45,
           Group 109 [[Chr 49, Rng 48 50], [Chr 48, Rng 49 57], [Rng 49 57]], Literal 45,
           Group 100 [[Chr 51, Rng 48 49], [Rng 49 50, Dgt], [Chr 48, Rng 49 57], [Rng 49 57],
                      [Chr 32, Rng 49 57]]]"
  by (simp add: cps_def group_regex_def is_space_def)

lemma pattern_iso_fraction:
  "\<exists>its. pattern p (cps ''%Y-%m-%dT%H:%M:%S.%fZ'') = Some (Group 89 [[Dgt, Dgt, Dgt, Dgt]] # its)
          \<and> Literal 84 \<in> set its"
  by (simp add: cps_def group_regex_def is_space_def)

lemma pattern_iso:
  "\<exists>its. pattern p (cps ''%Y-%m-%dT%H:%M:%SZ'') = Some (Group 89 [[Dgt, Dgt, Dgt, Dgt]] # its)
          \<and> Literal 84 \<in> set its"
  by (simp add: cps_def group_regex_def is_space_def)

lemma pattern_space:
  "\<exists>its. pattern p (cps ''%Y-%m-%d %H:%M:%S'') = Some (Group 89 [[Dgt, Dgt, Dgt, Dgt]] # its)
          \<and> Whitespace \<in> set its"
  by (simp add: cps_def group_regex_def is_space_def)

lemma match_seq_split: "match_seq p ccs s = Some (m, r) \<Longrightarrow> s = m @ r"
  by (induction p ccs s arbitrary: m r rule: match_seq.induct)
     (auto split: if_splits option.splits)

lemma item_alts_suffix:
  assumes "(caps, r) \<in> set (item_alts p it s)"
  shows "\<exists>pre. s = pre @ r"
proof (cases it)
  case (Group g alts)
  with assms obtain alt m where "match_seq p alt s = Some (m, r)"
    by (auto simp: item_alts_def List.map_filter_def)
  then show ?thesis using match_seq_split by blast
next
  case (Literal a)
  with assms show ?thesis
    by (auto simp: item_alts_def split: list.splits if_splits)
next
  case Whitespace
  with assms obtain k where "r = drop k s"
    by (auto simp: item_alts_def)
  then have "s = take k s @ r" by simp
  then show ?thesis by blast
qed

lemma regex_match_step:
  assumes "regex_match p (it # its) s \<noteq> []"
  shows "\<exists>caps r. (caps, r) \<in> set (item_alts p it s) \<and> regex_match p its r \<noteq> []"
proof (rule ccontr)
  assume "\<not> ?thesis"
  then have "\<forall>x \<in> set (item_alts p it s). regex_match p its (snd x) = []"
    by auto
  then have "regex_match p (it # its) s = []"
    by (auto simp: case_prod_beta)
  with assms show False by simp
qed

lemma regex_needs_literal:
  "regex_match p its s \<noteq> [] \<Longrightarrow> Literal a \<in> set its \<Longrightarrow> \<exists>x \<in> set s. literal_ignorecase p a x"
proof (induction its arbitrary: s)
  case Nil
  then show ?case by simp
next
  case (Cons it its)
  from regex_match_step [OF Cons.prems(1)]
  obtain caps r where alt: "(caps, r) \<in> set (item_alts p it s)" and rest: "regex_match p its r \<noteq> []"
    by blast
  show ?case
  proof (cases "it = Literal a")
    case True
    with alt show ?thesis
      by (auto simp: item_alts_def split: list.splits if_splits)
  next
    case False
    with Cons.prems have "Literal a \<in> set its" by simp
    from Cons.IH [OF rest this] obtain x where "x \<in> set r" "literal_ignorecase p a x" by blast
    moreover obtain pre where "s = pre @ r" using item_alts_suffix [OF alt] by blast
    ultimately show ?thesis by auto
  qed
qed

lemma regex_needs_space:
  "regex_match p its s \<noteq> [] \<Longrightarrow> Whitespace \<in> set its \<Longrightarrow> \<exists>x \<in> set s. is_space p x"
proof (induction its arbitrary: s)
  case Nil
  then show ?case by simp
next
  case (Cons it its)
  from regex_match_step [OF Cons.prems(1)]
  obtain caps r where alt: "(caps, r) \<in> set (item_alts p it s)" and rest: "regex_match p its r \<noteq> []"
    by blast
  show ?case
  proof (cases "it = Whitespace")
    case True
    with alt have "takeWhile (is_space p) s \<noteq> []"
      by (auto simp: item_alts_def)
    then obtain x where "x \<in> set (takeWhile (is_space p) s)"
      by (cases "takeWhile (is_space p) s") auto
    then have "x \<in> set s" "is_space p x"
      by (auto dest: set_takeWhileD)
    then show ?thesis by blast
  next
    case False
    with Cons.prems have "Whitespace \<in> set its" by simp
    from Cons.IH [OF rest this] obtain x where "x \<in> set r" "is_space p x" by blast
    moreover obtain pre where "s = pre @ r" using item_alts_suffix [OF alt] by blast
    ultimately show ?thesis by auto
  qed
qed

lemma strptime_no_match:
  "pattern p fmt = Some its \<Longrightarrow> regex_match p its s = [] \<Longrightarrow> strptime p s fmt = Inl ValueError"
  by (simp add: strptime_def)

lemma parsed_by_no_match:
  "pattern p fmt = Some its \<Longrightarrow> regex_match p its s = [] \<Longrightarrow> parsed_by p s fmt = None"
  by (simp add: parsed_by_def strptime_no_match)

lemma decimal_digit_char: "decimal p (digit_char n) = Some (n mod 10)"
proof -
  have "n mod 10 \<le> 9"
    using mod_less_divisor [of 10 n] by linarith
  then have "digit_char n < 128" "48 \<le> digit_char n" "digit_char n \<le> 57" "digit_char n - 48 = n mod 10"
    unfolding digit_char_def by linarith+
  then show ?thesis
    by (simp add: decimal_def)
qed

lemma digit_char_range: "48 \<le> digit_char n \<and> digit_char n \<le> 57"
proof -
  have "n mod 10 \<le> 9"
    using mod_less_divisor [of 10 n] by linarith
  then show ?thesis
    unfolding digit_char_def by linarith
qed

lemma is_space_digit_char: "\<not> is_space p (digit_char n)"
  using digit_char_range [of n] by (simp add: is_space_def)

lemma pad2_digits:
  assumes "n < 100"
  shows "\<exists>a b. a < 10 \<and> b < 10 \<and> n = 10 * a + b \<and> pad2 n = [48 + a, 48 + b]"
proof -
  have "n div 10 < 10"
    using assms by (simp add: div_less_iff_less_mult)
  then have "pad2 n = [48 + n div 10, 48 + n mod 10]"
    by (simp add: pad2_def digit_char_def)
  moreover have "n = 10 * (n div 10) + n mod 10" by simp
  moreover have "n mod 10 < 10" by simp
  ultimately show ?thesis using \<open>n div 10 < 10\<close> by blast
qed

lemma strip_digits: "\<forall>c \<in> set s. \<not> is_space p c \<Longrightarrow> strip p s = s"
proof -
  assume a: "\<forall>c \<in> set s. \<not> is_space p c"
  then have "dropWhile (is_space p) s = s"
    by (cases s) auto
  moreover have "dropWhile (is_space p) (rev s) = rev s"
    using a by (cases s rule: rev_cases) auto
  ultimately show ?thesis by (simp add: strip_def)
qed

lemma py_int_pad2: "n < 100 \<Longrightarrow> py_int p (pad2 n) = Some n"
proof -
  assume n: "n < 100"
  have s: "strip p (pad2 n) = pad2 n"
    by (rule strip_digits) (simp add: pad2_def is_space_digit_char)
  have "n div 10 < 10" using n by (simp add: div_less_iff_less_mult)
  then have "10 * (n div 10 mod 10) + n mod 10 = n" by simp
  then show ?thesis
    by (simp add: py_int_def s) (simp add: pad2_def decimal_digit_char)
qed

lemma py_int_pad4: "y < 10000 \<Longrightarrow> py_int p (pad4 y) = Some y"
proof -
  assume y: "y < 10000"
  have s: "strip p (pad4 y) = pad4 y"
    by (rule strip_digits) (simp add: pad4_def is_space_digit_char)
  have "y div 1000 < 10" using y by (simp add: div_less_iff_less_mult)
  then have a: "y div 1000 mod 10 = y div 1000" by simp
  have A: "10 * (y div 100 div 10) + y div 100 mod 10 = y div 100"
    by (rule mult_div_mod_eq)
  have B: "10 * (y div 10 div 10) + y div 10 mod 10 = y div 10"
    by (rule mult_div_mod_eq)
  have C: "10 * (y div 10) + y mod 10 = y"
    by (rule mult_div_mod_eq)
  have D: "y div 100 div 10 = y div 1000"
    using div_mult2_eq [of y 100 10] by simp
  have E: "y div 10 div 10 = y div 100"
    using div_mult2_eq [of y 10 10] by simp
  have "10 * (10 * (10 * (y div 1000 mod 10) + y div 100 mod 10) + y div 10 mod 10) + y mod 10 = y"
    using A B C unfolding a D E by (simp only:)
  then have "10 * (10 * (10 * (y div 1000) + y div 100 mod 10) + y div 10 mod 10) + y mod 10 = y"
    unfolding a .
  then show ?thesis
    by (simp add: py_int_def s) (simp add: pad4_def decimal_digit_char a)
qed


lemma item_alts_year:
  "item_alts p (Group 89 [[Dgt, Dgt, Dgt, Dgt]]) (pad4 y @ r) = [([(89, pad4 y)], r)]"
  by (simp add: item_alts_def List.map_filter_simps pad4_def cclass_match_def decimal_digit_char)

lemma regex_match_month:
  assumes "1 \<le> m" and "m \<le> 12"
  shows "regex_match p
           (Group 109 [[Chr 49, Rng 48 50], [Chr 48, Rng 49 57], [Rng 49 57]] # Literal 45 # its)
           (pad2 m @ 45 # r)
         = map (\<lambda>(caps', r'). ((109, pad2 m) # caps', r')) (regex_match p its r)"
proof -
  obtain a b where ab: "a < 10" "b < 10" "m = 10 * a + b" "pad2 m = [48 + a, 48 + b]"
    using pad2_digits [of m] assms by auto
  with assms consider "a = 0" "1 \<le> b" | "a = 1" "b \<le> 2"
    by (cases "a = 0") auto
  then show ?thesis
  proof cases
    case 1
    then show ?thesis
      using ab
      by (simp add: item_alts_def List.map_filter_simps cclass_match_def literal_ignorecase_def
            ascii_letter_def)
  next
    case 2
    then show ?thesis
      using ab
      by (simp add: item_alts_def List.map_filter_simps cclass_match_def literal_ignorecase_def
            ascii_letter_def)
  qed
qed

lemma regex_match_day:
  assumes "1 \<le> d" and "d \<le> 31"
  shows "\<exists>others. regex_match p
           [Group 100 [[Chr 51, Rng 48 49], [Rng 49 50, Dgt], [Chr 48, Rng 49 57], [Rng 49 57],
                       [Chr 32, Rng 49 57]]]
           (pad2 d)
         = ([(100, pad2 d)], []) # others"
proof -
  obtain a b where ab: "a < 10" "b < 10" "d = 10 * a + b" "pad2 d = [48 + a, 48 + b]"
    using pad2_digits [of d] assms by auto
  have dec: "decimal p (48 + b) \<noteq> None"
    using ab by (simp add: decimal_def)
  from ab assms consider "a = 0" "1 \<le> b" | "a = 1" | "a = 2" | "a = 3" "b \<le> 1"
    by (cases "a = 0"; cases "a = 1"; cases "a = 2") auto
  then show ?thesis
  proof cases
    case 1
    then show ?thesis
      using ab dec
      by (simp add: item_alts_def List.map_filter_simps cclass_match_def literal_ignorecase_def
            ascii_letter_def)
  next
    case 2
    then show ?thesis
      using ab dec
      by (simp add: item_alts_def List.map_filter_simps cclass_match_def literal_ignorecase_def
            ascii_letter_def)
  next
    case 3
    then show ?thesis
      using ab dec
      by (simp add: item_alts_def List.map_filter_simps cclass_match_def literal_ignorecase_def
            ascii_letter_def)
  next
    case 4
    then show ?thesis
      using ab dec
      by (simp add: item_alts_def List.map_filter_simps cclass_match_def literal_ignorecase_def
            ascii_letter_def)
  qed
qed


lemma days_in_month_le: "days_in_month y m \<le> 31"
  by (simp add: days_in_month_def)

lemma regex_match_ymd:
  assumes "1 \<le> m" and "m \<le> 12" and "1 \<le> d" and "d \<le> 31"
  shows "\<exists>others.
           regex_match p
             [Group 89 [[Dgt, Dgt, Dgt, Dgt]], Literal 45,
              Group 109 [[Chr 49, Rng 48 50], [Chr 48, Rng 49 57], [Rng 49 57]], Literal 45,
              Group 100 [[Chr 51, Rng 48 49], [Rng 49 50, Dgt], [Chr 48, Rng 49 57], [Rng 49 57],
                         [Chr 32, Rng 49 57]]]
             (pad4 y @ [45] @ pad2 m @ [45] @ pad2 d)
           = ([(89, pad4 y), (109, pad2 m), (100, pad2 d)], []) # others"
proof -
  obtain others where o: "regex_match p
           [Group 100 [[Chr 51, Rng 48 49], [Rng 49 50, Dgt], [Chr 48, Rng 49 57], [Rng 49 57],
                       [Chr 32, Rng 49 57]]]
           (pad2 d)
         = ([(100, pad2 d)], []) # others"
    using regex_match_day [OF assms(3,4)] by blast
  have hyphen: "item_alts p (Literal 45) (45 # r) = [([], r)]" for r
    by (simp add: item_alts_def literal_ignorecase_def ascii_letter_def)
  have "regex_match p
             [Group 89 [[Dgt, Dgt, Dgt, Dgt]], Literal 45,
              Group 109 [[Chr 49, Rng 48 50], [Chr 48, Rng 49 57], [Rng 49 57]], Literal 45,
              Group 100 [[Chr 51, Rng 48 49], [Rng 49 50, Dgt], [Chr 48, Rng 49 57], [Rng 49 57],
                         [Chr 32, Rng 49 57]]]
             (pad4 y @ 45 # pad2 m @ 45 # pad2 d)
        = map (\<lambda>(caps', r'). ((89, pad4 y) # caps', r'))
            (regex_match p
              (Group 109 [[Chr 49, Rng 48 50], [Chr 48, Rng 49 57], [Rng 49 57]] # Literal 45 #
               [Group 100 [[Chr 51, Rng 48 49], [Rng 49 50, Dgt], [Chr 48, Rng 49 57], [Rng 49 57],
                         [Chr 32, Rng 49 57]]])
              (pad2 m @ 45 # pad2 d))"
    by (simp add: item_alts_year hyphen del: regex_match.simps(2)
             add: regex_match.simps(2) [of p "Group 89 [[Dgt, Dgt, Dgt, Dgt]]"]
                  regex_match.simps(2) [of p "Literal 45"])
  also have "\<dots> = map (\<lambda>(caps', r'). ((89, pad4 y) # caps', r'))
            (map (\<lambda>(caps', r'). ((109, pad2 m) # caps', r')) (([(100, pad2 d)], []) # others))"
    unfolding regex_match_month [OF assms(1,2)] o ..
  finally show ?thesis
    by simp
qed

lemma strptime_ymd_reparse:
  assumes "1 \<le> y" and "y \<le> 9999" and "1 \<le> m" and "m \<le> 12" and "1 \<le> d"
    and "d \<le> days_in_month y m"
  shows "strptime p (pad4 y @ [45] @ pad2 m @ [45] @ pad2 d) (cps ''%Y-%m-%d'')
         = Inr \<lparr>dt_year = y, dt_month = m, dt_day = d, dt_hour = 0, dt_minute = 0,
                 dt_second = 0, dt_microsecond = 0\<rparr>"
proof -
  have d31: "d \<le> 31"
    using assms(6) days_in_month_le [of y m] by linarith
  obtain others where r: "regex_match p
             [Group 89 [[Dgt, Dgt, Dgt, Dgt]], Literal 45,
              Group 109 [[Chr 49, Rng 48 50], [Chr 48, Rng 49 57], [Rng 49 57]], Literal 45,
              Group 100 [[Chr 51, Rng 48 49], [Rng 49 50, Dgt], [Chr 48, Rng 49 57], [Rng 49 57],
                         [Chr 32, Rng 49 57]]]
             (pad4 y @ [45] @ pad2 m @ [45] @ pad2 d)
           = ([(89, pad4 y), (109, pad2 m), (100, pad2 d)], []) # others"
    using regex_match_ymd [OF assms(3,4,5) d31] by blast
  have g: "datetime_of_groups p [(89, pad4 y), (109, pad2 m), (100, pad2 d)]
           = make_datetime y m d 0 0 0 0"
    using assms d31
    by (simp add: datetime_of_groups_def group_int_def fraction_of_def py_int_pad4 py_int_pad2)
  have "make_datetime y m d 0 0 0 0
        = Inr \<lparr>dt_year = y, dt_month = m, dt_day = d, dt_hour = 0, dt_minute = 0,
                 dt_second = 0, dt_microsecond = 0\<rparr>"
    using assms by (simp add: make_datetime_def)
  with g r show ?thesis
    by (simp add: strptime_def pattern_ymd del: regex_match.simps)
qed

lemma date_char_no_match:
  "x = 45 \<or> (48 \<le> x \<and> x \<le> 57) \<Longrightarrow> \<not> literal_ignorecase p 84 x \<and> \<not> is_space p x"
  by (auto simp: literal_ignorecase_def ascii_letter_def ascii_lower_def is_space_def)

lemma date_formats_eq:
  "date_formats = [cps ''%Y-%m-%dT%H:%M:%S.%fZ'', cps ''%Y-%m-%dT%H:%M:%SZ'',
                   cps ''%Y-%m-%d %H:%M:%S'', cps ''%Y-%m-%d'']"
  by (simp add: date_formats_def)

lemma first_parse_normalized:
  assumes "1 \<le> y" and "y \<le> 9999" and "1 \<le> m" and "m \<le> 12" and "1 \<le> d"
    and "d \<le> days_in_month y m"
  shows "first_parse p (pad4 y @ [45] @ pad2 m @ [45] @ pad2 d)
         = Some \<lparr>dt_year = y, dt_month = m, dt_day = d, dt_hour = 0, dt_minute = 0,
                  dt_second = 0, dt_microsecond = 0\<rparr>"
proof -
  let ?s = "pad4 y @ [45] @ pad2 m @ [45] @ pad2 d"
  have chars: "x = 45 \<or> (48 \<le> x \<and> x \<le> 57)" if "x \<in> set ?s" for x
    using that digit_char_range by (auto simp: pad4_def pad2_def)
  have noT: "regex_match p its ?s = []" if "Literal 84 \<in> set its" for its
  proof (rule ccontr)
    assume "regex_match p its ?s \<noteq> []"
    from regex_needs_literal [OF this that] obtain x where "x \<in> set ?s" "literal_ignorecase p 84 x"
      by blast
    with chars date_char_no_match show False by blast
  qed
  have noS: "regex_match p its ?s = []" if "Whitespace \<in> set its" for its
  proof (rule ccontr)
    assume "regex_match p its ?s \<noteq> []"
    from regex_needs_space [OF this that] obtain x where "x \<in> set ?s" "is_space p x"
      by blast
    with chars date_char_no_match show False by blast
  qed
  have f1: "parsed_by p ?s (cps ''%Y-%m-%dT%H:%M:%S.%fZ'') = None"
    using pattern_iso_fraction [of p] noT by (metis parsed_by_no_match list.set_intros(2))
  have f2: "parsed_by p ?s (cps ''%Y-%m-%dT%H:%M:%SZ'') = None"
    using pattern_iso [of p] noT by (metis parsed_by_no_match list.set_intros(2))
  have f3: "parsed_by p ?s (cps ''%Y-%m-%d %H:%M:%S'') = None"
    using pattern_space [of p] noS by (metis parsed_by_no_match list.set_intros(2))
  have f4: "parsed_by p ?s (cps ''%Y-%m-%d'')
            = Some \<lparr>dt_year = y, dt_month = m, dt_day = d, dt_hour = 0, dt_minute = 0,
                  dt_second = 0, dt_microsecond = 0\<rparr>"
    using strptime_ymd_reparse [OF assms, of p] by (simp add: parsed_by_def)
  show ?thesis
    unfolding first_parse_def date_formats_eq
    by (simp only: List.map_filter_simps f1 f2 f3 f4 option.case list.case)
qed

lemma match_seq_year_short:
  assumes "length ys \<le> 3"
  shows "match_seq p [Dgt, Dgt, Dgt, Dgt] (ys @ 45 # t) = None"
proof -
  have d: "\<not> cclass_match p Dgt 45"
    by (simp add: cclass_match_def decimal_def)
  from assms consider "ys = []" | a where "ys = [a]" | a b where "ys = [a, b]"
    | a b c where "ys = [a, b, c]"
    by (cases ys; cases "tl ys"; cases "tl (tl ys)"; cases "tl (tl (tl ys))") auto
  then show ?thesis
    by cases (auto simp: d split: option.splits)
qed

lemma first_parse_short_year:
  assumes "length ys \<le> 3"
  shows "first_parse p (ys @ 45 # t) = None"
proof -
  have none: "regex_match p (Group 89 [[Dgt, Dgt, Dgt, Dgt]] # its) (ys @ 45 # t) = []" for its
    by (simp add: item_alts_def List.map_filter_simps match_seq_year_short [OF assms]
             del: match_seq.simps)
  have f1: "parsed_by p (ys @ 45 # t) (cps ''%Y-%m-%dT%H:%M:%S.%fZ'') = None"
    using pattern_iso_fraction [of p] none by (metis parsed_by_no_match)
  have f2: "parsed_by p (ys @ 45 # t) (cps ''%Y-%m-%dT%H:%M:%SZ'') = None"
    using pattern_iso [of p] none by (metis parsed_by_no_match)
  have f3: "parsed_by p (ys @ 45 # t) (cps ''%Y-%m-%d %H:%M:%S'') = None"
    using pattern_space [of p] none by (metis parsed_by_no_match)
  have f4: "parsed_by p (ys @ 45 # t) (cps ''%Y-%m-%d'') = None"
    using pattern_ymd [of p] none by (metis parsed_by_no_match)
  show ?thesis
    unfolding first_parse_def date_formats_eq
    by (simp only: List.map_filter_simps f1 f2 f3 f4 option.case list.case)
qed

lemma first_parse_empty: "first_parse p [] = None"
proof -
  have none: "regex_match p (Group 89 [[Dgt, Dgt, Dgt, Dgt]] # its) [] = []" for its
    by (simp add: item_alts_def List.map_filter_simps)
  have f1: "parsed_by p [] (cps ''%Y-%m-%dT%H:%M:%S.%fZ'') = None"
    using pattern_iso_fraction [of p] none by (metis parsed_by_no_match)
  have f2: "parsed_by p [] (cps ''%Y-%m-%dT%H:%M:%SZ'') = None"
    using pattern_iso [of p] none by (metis parsed_by_no_match)
  have f3: "parsed_by p [] (cps ''%Y-%m-%d %H:%M:%S'') = None"
    using pattern_space [of p] none by (metis parsed_by_no_match)
  have f4: "parsed_by p [] (cps ''%Y-%m-%d'') = None"
    using pattern_ymd [of p] none by (metis parsed_by_no_match)
  show ?thesis
    unfolding first_parse_def date_formats_eq
    by (simp only: List.map_filter_simps f1 f2 f3 f4 option.case list.case)
qed

lemma year_str_short:
  assumes "\<not> pads_year p" and "1 \<le> y" and "y < 1000"
  shows "length (year_str p y) \<le> 3"
proof -
  have "y div 1000 = 0" using assms by simp
  then have "pad4 y = 48 # [digit_char (y div 100), digit_char (y div 10), digit_char y]"
    by (simp add: pad4_def digit_char_def)
  then have "year_str p y
             = dropWhile (\<lambda>c. c = 48) [digit_char (y div 100), digit_char (y div 10), digit_char y]"
    using assms by (simp add: year_str_def)
  then show ?thesis
    using length_dropWhile_le [of "\<lambda>c. c = 48" "[digit_char (y div 100), digit_char (y div 10), digit_char y]"]
    by simp
qed

lemma year_str_padded:
  assumes "pads_year p \<or> 1000 \<le> y" and "1 \<le> y" and "y \<le> 9999"
  shows "year_str p y = pad4 y"
  using assms by (auto simp: year_str_def pad4_no_leading_zero)

lemma parse_date_strftime:
  assumes "1 \<le> dt_year dt" and "dt_year dt \<le> 9999" and "1 \<le> dt_month dt"
    and "dt_month dt \<le> 12" and "1 \<le> dt_day dt"
    and "dt_day dt \<le> days_in_month (dt_year dt) (dt_month dt)"
  shows "parse_date p (strftime_ymd p dt) = Inr (strftime_ymd p dt)"
proof (cases "pads_year p \<or> 1000 \<le> dt_year dt")
  case True
  then have ys: "year_str p (dt_year dt) = pad4 (dt_year dt)"
    using assms by (simp add: year_str_padded)
  have s: "strftime_ymd p dt
           = pad4 (dt_year dt) @ [45] @ pad2 (dt_month dt) @ [45] @ pad2 (dt_day dt)"
    by (simp add: strftime_ymd_def ys)
  have ne: "strftime_ymd p dt \<noteq> []"
    by (simp add: strftime_ymd_def)
  have "first_parse p (strftime_ymd p dt)
        = Some \<lparr>dt_year = dt_year dt, dt_month = dt_month dt, dt_day = dt_day dt, dt_hour = 0,
                 dt_minute = 0, dt_second = 0, dt_microsecond = 0\<rparr>"
    unfolding s by (rule first_parse_normalized [OF assms])
  then show ?thesis
    using ne by (simp add: parse_date_eq) (simp add: strftime_ymd_def ys)
next
  case False
  then have short: "length (year_str p (dt_year dt)) \<le> 3"
    using assms by (simp add: year_str_short)
  have s: "strftime_ymd p dt
           = year_str p (dt_year dt) @ 45 # (pad2 (dt_month dt) @ [45] @ pad2 (dt_day dt))"
    by (simp add: strftime_ymd_def)
  have "first_parse p (strftime_ymd p dt) = None"
    unfolding s by (rule first_parse_short_year [OF short])
  moreover have "strftime_ymd p dt \<noteq> []" "length (strftime_ymd p dt) < 10"
    using short by (simp_all add: strftime_ymd_def pad2_def)
  ultimately show ?thesis
    by (simp add: parse_date_eq)
qed


text \<open>
  C4 (as stated, refuted). On a platform whose \<open>strftime\<close> does not pad the year
  (glibc with CPython up to 3.12), the recognised string \<open>0999-01-01\<close> normalizes to
  \<open>999-01-01\<close>, which is not of the shape \<open>YYYY-MM-DD\<close>.
\<close>

theorem C4_year_below_1000_counterexample:
  "recognized ascii_platform (cps ''0999-01-01'')
   \<and> parse_date ascii_platform (cps ''0999-01-01'') = Inr (cps ''999-01-01'')
   \<and> \<not> is_yyyy_mm_dd (cps ''999-01-01'')"
  by code_simp

text \<open>
  C4 (amended). A string that one of the four formats parses normalizes to the year,
  month and day of the first format of the list that parses it, joined by hyphens;
  this has the shape \<open>YYYY-MM-DD\<close> when the year is at least 1000 or the platform pads
  the year. When no format parses the string, a string of length at least 10 gives its
  first 10 characters and a shorter non-empty one is returned as it is. The empty
  string gives the sentinel whatever \<open>strptime\<close> would do with it.
\<close>

theorem C4_date_normalization:
  "(recognized p s \<longrightarrow>
      (\<exists>dt. first_parse p s = Some dt \<and> parse_date p s = Inr (strftime_ymd p dt)
         \<and> (pads_year p \<or> 1000 \<le> dt_year dt \<longrightarrow> is_yyyy_mm_dd (strftime_ymd p dt))))
   \<and> (\<not> recognized p s \<and> 10 \<le> length s \<longrightarrow> parse_date p s = Inr (take 10 s))
   \<and> (\<not> recognized p s \<and> s \<noteq> [] \<and> length s < 10 \<longrightarrow> parse_date p s = Inr s)
   \<and> parse_date_with sp p [] = Inr date_not_found"
proof -
  have one: "\<exists>dt. first_parse p s = Some dt \<and> parse_date p s = Inr (strftime_ymd p dt)
         \<and> (pads_year p \<or> 1000 \<le> dt_year dt \<longrightarrow> is_yyyy_mm_dd (strftime_ymd p dt))"
    if r: "recognized p s"
  proof -
    from r obtain dt where dt: "first_parse p s = Some dt"
      by (auto simp: recognized_first_parse)
    then have "s \<noteq> []"
      using first_parse_empty [of p] by auto
    with dt have "parse_date p s = Inr (strftime_ymd p dt)"
      by (simp add: parse_date_eq)
    moreover have "is_yyyy_mm_dd (strftime_ymd p dt)" if "pads_year p \<or> 1000 \<le> dt_year dt"
      using first_parse_valid [OF dt] that by (simp add: is_yyyy_mm_dd_strftime)
    ultimately show ?thesis
      using dt by blast
  qed
  have two: "parse_date p s = Inr (take 10 s)" if "\<not> recognized p s" "10 \<le> length s"
    using that by (auto simp: recognized_first_parse parse_date_eq)
  have three: "parse_date p s = Inr s" if "\<not> recognized p s" "s \<noteq> []" "length s < 10"
    using that by (auto simp: recognized_first_parse parse_date_eq)
  have four: "parse_date_with sp p [] = Inr date_not_found"
    by (simp add: parse_date_with_def)
  from one two three four show ?thesis
    by blast
qed

theorem C4_date_normalization_witness:
  "recognized ascii_platform (cps ''2024-01-05T10:20:30.123Z'')
   \<and> parse_date ascii_platform (cps ''2024-01-05T10:20:30.123Z'') = Inr (cps ''2024-01-05'')
   \<and> is_yyyy_mm_dd (cps ''2024-01-05'')
   \<and> \<not> recognized ascii_platform (cps ''yesterday at noon'')
   \<and> parse_date ascii_platform (cps ''yesterday at noon'') = Inr (cps ''yesterday '')
   \<and> \<not> recognized ascii_platform (cps ''today'')
   \<and> parse_date ascii_platform (cps ''today'') = Inr (cps ''today'')
   \<and> parse_date_with failing_strptime ascii_platform [] = Inr date_not_found"
proof -
  have r1: "recognized ascii_platform (cps ''2024-01-05T10:20:30.123Z'')"
    by code_simp
  have p1: "parse_date ascii_platform (cps ''2024-01-05T10:20:30.123Z'') = Inr (cps ''2024-01-05'')"
    by code_simp
  have y1: "is_yyyy_mm_dd (cps ''2024-01-05'')"
    by code_simp
  have r2: "\<not> recognized ascii_platform (cps ''yesterday at noon'')"
    by code_simp
  have l2: "10 \<le> length (cps ''yesterday at noon'')" "take 10 (cps ''yesterday at noon'') = cps ''yesterday ''"
    by code_simp+
  have r3: "\<not> recognized ascii_platform (cps ''today'')"
    by code_simp
  have l3: "cps ''today'' \<noteq> []" "length (cps ''today'') < 10"
    by code_simp+
  show ?thesis
    using C4_date_normalization [of ascii_platform "cps ''2024-01-05T10:20:30.123Z''" failing_strptime]
          C4_date_normalization [of ascii_platform "cps ''yesterday at noon''" failing_strptime]
          C4_date_normalization [of ascii_platform "cps ''today''" failing_strptime]
          r1 p1 y1 r2 l2 r3 l3
    by simp
qed

text \<open>
  C5. For every string that one of the four formats parses, normalizing the
  normalized string gives the normalized string again.
\<close>

theorem C5_normalization_idempotent:
  assumes "recognized p s"
  shows "\<exists>r. parse_date p s = Inr r \<and> parse_date p r = Inr r"
proof -
  from assms obtain dt where dt: "first_parse p s = Some dt"
    by (auto simp: recognized_first_parse)
  then have "s \<noteq> []"
    using first_parse_empty [of p] by auto
  with dt have "parse_date p s = Inr (strftime_ymd p dt)"
    by (simp add: parse_date_eq)
  moreover have "parse_date p (strftime_ymd p dt) = Inr (strftime_ymd p dt)"
    using first_parse_valid [OF dt] by (simp add: parse_date_strftime)
  ultimately show ?thesis
    by blast
qed

theorem C5_normalization_idempotent_witness:
  "parse_date ascii_platform (cps ''2024-01-05 10:20:30'') = Inr (cps ''2024-01-05'')
   \<and> parse_date ascii_platform (cps ''2024-01-05'') = Inr (cps ''2024-01-05'')
   \<and> parse_date ascii_platform (cps ''0999-1-5'') = Inr (cps ''999-01-05'')
   \<and> parse_date ascii_platform (cps ''999-01-05'') = Inr (cps ''999-01-05'')"
proof -
  have r1: "recognized ascii_platform (cps ''2024-01-05 10:20:30'')"
    by code_simp
  have p1: "parse_date ascii_platform (cps ''2024-01-05 10:20:30'') = Inr (cps ''2024-01-05'')"
    by code_simp
  have r2: "recognized ascii_platform (cps ''0999-1-5'')"
    by code_simp
  have p2: "parse_date ascii_platform (cps ''0999-1-5'') = Inr (cps ''999-01-05'')"
    by code_simp
  show ?thesis
    using C5_normalization_idempotent [OF r1] C5_normalization_idempotent [OF r2] p1 p2
    by auto
qed

text \<open>
  C10. Date normalization returns a string for every string and never raises,
  whatever exception \<open>strptime\<close> raises: \<open>ValueError\<close> is handled by the loop over
  the formats and every other exception by the outer handler.
\<close>

theorem C10_parse_date_total:
  "(\<exists>r. parse_date_with sp p s = Inr r) \<and> (\<exists>r. parse_date p s = Inr r)"
  using parse_date_with_total [of sp p s] parse_date_with_total [of "strptime p" p s]
  by (simp add: parse_date_def)

theorem C10_parse_date_total_witness:
  "(\<exists>r. parse_date_with failing_strptime ascii_platform (cps ''2024-01-05T10:20:30Z'') = Inr r)
   \<and> parse_date_with failing_strptime ascii_platform (cps ''2024-01-05T10:20:30Z'')
       = Inr (cps ''2024-01-05'')
   \<and> parse_date_with failing_strptime ascii_platform (cps ''soon'') = Inr date_not_found
   \<and> (\<exists>r. parse_date ascii_platform (cps ''soon'') = Inr r)"
proof -
  have "parse_date_with failing_strptime ascii_platform (cps ''2024-01-05T10:20:30Z'')
       = Inr (cps ''2024-01-05'')"
    by code_simp
  moreover have "parse_date_with failing_strptime ascii_platform (cps ''soon'') = Inr date_not_found"
    by code_simp
  ultimately show ?thesis
    using C10_parse_date_total [of failing_strptime ascii_platform "cps ''2024-01-05T10:20:30Z''"]
          C10_parse_date_total [of failing_strptime ascii_platform "cps ''soon''"]
    by simp
qed

end
